theory Spec2Isabelle
  imports Complex_Main "HOL-Library.Sublist" "HOL-Library.Log_Nat"
begin

section \<open>JavaScript numbers\<close>

text \<open>
  Every number of \<^verbatim>\<open>src/monitor/monitor.ts\<close> is an IEEE 754 double: the pauses, the block
  numbers, the retry counters and what \<^verbatim>\<open>parseInt\<close> returns.  A double is \<open>NaN\<close>, an
  infinity, a zero of either sign (\<open>Fin 0\<close> is \<open>+0\<close>) or a finite value, kept as the
  rational it denotes.  Arithmetic computes the exact result and rounds it to the nearest
  double, ties to the even significand; a result of magnitude \<open>2^1024\<close> or more after
  rounding is an infinity, and one that rounds to nothing is a zero with the sign of the
  exact result.

  \<open>binade a\<close> is the exponent \<open>b\<close> with \<open>2^b \<le> a < 2^(b+1)\<close> of a positive rational,
  found from the bit lengths of its numerator and denominator; the doubles of that binade
  are the multiples of \<open>2^(b-52)\<close>, and below \<open>2^(-1022)\<close> the subnormal ones, the
  multiples of \<open>2^(-1074)\<close>.
\<close>

datatype number = NaN | NegInf | NegZero | Fin rat | PosInf

definition isNegative :: "number \<Rightarrow> bool" where
  "isNegative x = (case x of NegInf \<Rightarrow> True | NegZero \<Rightarrow> True | Fin r \<Rightarrow> r < 0 | _ \<Rightarrow> False)"

definition isZero :: "number \<Rightarrow> bool" where
  "isZero x = (x = NegZero \<or> x = Fin 0)"

definition isInfinite :: "number \<Rightarrow> bool" where
  "isInfinite x = (x = NegInf \<or> x = PosInf)"

definition valueOf :: "number \<Rightarrow> rat" where
  "valueOf x = (case x of Fin r \<Rightarrow> r | _ \<Rightarrow> 0)"

definition signedZero :: "bool \<Rightarrow> number" where
  "signedZero negative = (if negative then NegZero else Fin 0)"

definition signedInf :: "bool \<Rightarrow> number" where
  "signedInf negative = (if negative then NegInf else PosInf)"

definition pow2 :: "int \<Rightarrow> rat" where
  "pow2 e = 2 powi e"

definition binade :: "rat \<Rightarrow> int" where
  "binade a =
     (let (p, q) = quotient_of a; d = bitlen p - bitlen q
      in if pow2 d \<le> a then d else d - 1)"

definition roundHalfEven :: "rat \<Rightarrow> int" where
  "roundHalfEven q =
     (let f = \<lfloor>q\<rfloor>; r = q - of_int f
      in if r < 1 / 2 then f else if 1 / 2 < r then f + 1 else if even f then f else f + 1)"

definition roundMagnitude :: "rat \<Rightarrow> rat" where
  "roundMagnitude a =
     (let u = max (binade a) (- 1022) - 52
      in of_int (roundHalfEven (a / pow2 u)) * pow2 u)"

text \<open>The double of sign \<open>negative\<close> nearest to the magnitude \<open>a \<ge> 0\<close>.\<close>

definition roundToDouble :: "bool \<Rightarrow> rat \<Rightarrow> number" where
  "roundToDouble negative a =
     (if a = 0 then signedZero negative
      else let y = roundMagnitude a
           in if pow2 1024 \<le> y then signedInf negative
              else if y = 0 then signedZero negative
              else Fin (if negative then - y else y))"

definition double :: "rat \<Rightarrow> number" where
  "double x = roundToDouble (x < 0) \<bar>x\<bar>"

text \<open>
  The operators the monitor applies to numbers: \<^verbatim>\<open>*\<close>, \<^verbatim>\<open>/\<close>, \<^verbatim>\<open>+\<close>, \<^verbatim>\<open>-\<close>, \<^verbatim>\<open><\<close>, \<^verbatim>\<open><=\<close>,
  \<^verbatim>\<open>Math.min\<close>, \<^verbatim>\<open>Math.max\<close> and the truth value \<^verbatim>\<open>||\<close> tests.  \<open>NaN\<close> makes every
  arithmetic result \<open>NaN\<close> and every comparison false; so do \<open>\<infinity> * 0\<close>, \<open>\<infinity> / \<infinity>\<close>,
  \<open>0 / 0\<close> and \<open>\<infinity> - \<infinity>\<close>.  \<^verbatim>\<open>Math.min\<close> and \<^verbatim>\<open>Math.max\<close> return \<open>NaN\<close> if an
  argument is \<open>NaN\<close> and order \<open>-0\<close> below \<open>+0\<close>.
\<close>

definition js_mul :: "number \<Rightarrow> number \<Rightarrow> number" where
  "js_mul x y =
     (if x = NaN \<or> y = NaN then NaN
      else if (isInfinite x \<and> isZero y) \<or> (isZero x \<and> isInfinite y) then NaN
      else if isInfinite x \<or> isInfinite y then signedInf (isNegative x \<noteq> isNegative y)
      else roundToDouble (isNegative x \<noteq> isNegative y) (\<bar>valueOf x\<bar> * \<bar>valueOf y\<bar>))"

definition js_div :: "number \<Rightarrow> number \<Rightarrow> number" where
  "js_div x y =
     (if x = NaN \<or> y = NaN then NaN
      else if (isInfinite x \<and> isInfinite y) \<or> (isZero x \<and> isZero y) then NaN
      else if isInfinite x \<or> isZero y then signedInf (isNegative x \<noteq> isNegative y)
      else if isInfinite y then signedZero (isNegative x \<noteq> isNegative y)
      else roundToDouble (isNegative x \<noteq> isNegative y) (\<bar>valueOf x\<bar> / \<bar>valueOf y\<bar>))"

definition js_add :: "number \<Rightarrow> number \<Rightarrow> number" where
  "js_add x y =
     (if x = NaN \<or> y = NaN then NaN
      else if isInfinite x then (if isInfinite y \<and> x \<noteq> y then NaN else x)
      else if isInfinite y then y
      else if valueOf x + valueOf y = 0 then signedZero (isNegative x \<and> isNegative y)
      else double (valueOf x + valueOf y))"

definition js_neg :: "number \<Rightarrow> number" where
  "js_neg x =
     (case x of
        NaN \<Rightarrow> NaN
      | NegInf \<Rightarrow> PosInf
      | PosInf \<Rightarrow> NegInf
      | NegZero \<Rightarrow> Fin 0
      | Fin r \<Rightarrow> if r = 0 then NegZero else Fin (- r))"

definition js_sub :: "number \<Rightarrow> number \<Rightarrow> number" where
  "js_sub x y = js_add x (js_neg y)"

definition js_lt :: "number \<Rightarrow> number \<Rightarrow> bool" where
  "js_lt x y =
     (x \<noteq> NaN \<and> y \<noteq> NaN \<and>
      (if isInfinite x \<or> isInfinite y then x \<noteq> y \<and> (x = NegInf \<or> y = PosInf)
       else valueOf x < valueOf y))"

definition js_le :: "number \<Rightarrow> number \<Rightarrow> bool" where
  "js_le x y =
     (x \<noteq> NaN \<and> y \<noteq> NaN \<and>
      (if isInfinite x \<or> isInfinite y then x = NegInf \<or> y = PosInf
       else valueOf x \<le> valueOf y))"

definition Math_min :: "number \<Rightarrow> number \<Rightarrow> number" where
  "Math_min x y =
     (if x = NaN \<or> y = NaN then NaN
      else if js_lt x y then x
      else if js_lt y x then y
      else if x = NegZero then x else y)"

definition Math_max :: "number \<Rightarrow> number \<Rightarrow> number" where
  "Math_max x y =
     (if x = NaN \<or> y = NaN then NaN
      else if js_lt x y then y
      else if js_lt y x then x
      else if x = NegZero then y else x)"

definition truthy :: "number \<Rightarrow> bool" where
  "truthy x = (x \<noteq> NaN \<and> \<not> isZero x)"

text \<open>\<^verbatim>\<open>blockNumber++\<close> and \<^verbatim>\<open>retriesLeft--\<close>: the new value of the variable.\<close>

definition increment :: "number \<Rightarrow> number" where
  "increment x = js_add x (Fin 1)"

definition decrement :: "number \<Rightarrow> number" where
  "decrement x = js_sub x (Fin 1)"

section \<open>\<open>parseInt\<close>\<close>

text \<open>
  The text of an environment variable is a JavaScript string, a sequence of UTF-16 code
  units, here natural numbers.  \<open>parseInt\<close> is the ECMAScript built-in called with one
  argument: leading white space and line terminators are dropped (TAB, LF, VT, FF, CR,
  space, U+00A0, U+1680, U+2000 to U+200A, U+2028, U+2029, U+202F, U+205F, U+3000,
  U+FEFF), then an optional sign, then an optional \<open>0x\<close> or \<open>0X\<close> prefix (radix 16,
  otherwise 10), then the longest run of digits of the radix; no digit gives \<open>NaN\<close>, and
  otherwise the integer read is rounded to a double, \<open>-0\<close> for a zero after a minus sign.
  (The standard lets an implementation approximate decimal text beyond 20 digits; the
  rounding here is the correct one, which is what Node computes.)
\<close>

type_synonym codeUnits = "nat list"

definition isWhiteSpace :: "nat \<Rightarrow> bool" where
  "isWhiteSpace c =
     (c \<in> {9, 10, 11, 12, 13, 32, 160, 5760, 8232, 8233, 8239, 8287, 12288, 65279}
      \<or> (8192 \<le> c \<and> c \<le> 8202))"

definition digitValue :: "nat \<Rightarrow> nat option" where
  "digitValue c =
     (if 48 \<le> c \<and> c \<le> 57 then Some (c - 48)
      else if 97 \<le> c \<and> c \<le> 122 then Some (c - 87)
      else if 65 \<le> c \<and> c \<le> 90 then Some (c - 55)
      else None)"

definition isRadixDigit :: "nat \<Rightarrow> nat \<Rightarrow> bool" where
  "isRadixDigit R c = (case digitValue c of None \<Rightarrow> False | Some d \<Rightarrow> d < R)"

definition radixValue :: "nat \<Rightarrow> codeUnits \<Rightarrow> int" where
  "radixValue R Z =
     foldl (\<lambda>acc c. acc * int R + int (case digitValue c of None \<Rightarrow> 0 | Some d \<Rightarrow> d)) 0 Z"

text \<open>The sign: code unit 45 is \<open>-\<close>, 43 is \<open>+\<close>.  The prefix: 48 is \<open>0\<close>, 120 \<open>x\<close>, 88 \<open>X\<close>.\<close>

definition stripSign :: "codeUnits \<Rightarrow> bool \<times> codeUnits" where
  "stripSign S =
     (case S of
        [] \<Rightarrow> (False, [])
      | c # r \<Rightarrow> if c = 45 then (True, r) else if c = 43 then (False, r) else (False, S))"

definition stripPrefix :: "codeUnits \<Rightarrow> nat \<times> codeUnits" where
  "stripPrefix S =
     (case S of
        a # b # r \<Rightarrow> if a = 48 \<and> (b = 120 \<or> b = 88) then (16, r) else (10, S)
      | _ \<Rightarrow> (10, S))"

definition parseInt :: "codeUnits \<Rightarrow> number" where
  "parseInt inputString =
     (let (negative, S1) = stripSign (dropWhile isWhiteSpace inputString);
          (R, S2) = stripPrefix S1;
          Z = takeWhile (isRadixDigit R) S2
      in if Z = [] then NaN else roundToDouble negative (of_int (radixValue R Z)))"

text \<open>The code units of a text written in ASCII.\<close>

definition ascii :: "string \<Rightarrow> codeUnits" where
  "ascii s = map of_char s"

text \<open>
  \<^verbatim>\<open>chainId.toString()\<close> and the \<^verbatim>\<open>${chainId}\<close> of a template, for the chain id of a chain
  descriptor: an integer (below \<open>10^21\<close>, where a number's text is its decimal digits), with
  a minus sign when negative.
\<close>

fun natToString :: "nat \<Rightarrow> string" where
  "natToString n =
     (if n < 10 then [''0123456789'' ! n]
      else natToString (n div 10) @ [''0123456789'' ! (n mod 10)])"

declare natToString.simps [simp del]

definition toString :: "int \<Rightarrow> string" where
  "toString i = (if i < 0 then CHR ''-'' # natToString (nat (- i)) else natToString (nat i))"

section \<open>Configuration read from the process environment\<close>

type_synonym env = "string \<Rightarrow> codeUnits option"

text \<open>
  \<^verbatim>\<open>parseInt(process.env.X || "") || d\<close>: an unset or empty variable and text that does not
  parse give \<open>NaN\<close>, which is falsy as both zeros are, and then the value is the default
  \<open>d\<close>.  Text of 309 digits or more parses to \<open>Infinity\<close>, which is truthy.
\<close>

definition envNumber :: "env \<Rightarrow> string \<Rightarrow> number \<Rightarrow> number" where
  "envNumber e x d =
     (let v = parseInt (case e x of None \<Rightarrow> [] | Some t \<Rightarrow> t)
      in if truthy v then v else d)"

definition BLOCK_PAUSE_FACTOR :: "env \<Rightarrow> number" where
  "BLOCK_PAUSE_FACTOR e = envNumber e ''BLOCK_PAUSE_FACTOR'' (double (11 / 10))"

definition BLOCK_PAUSE_UPPER_LIMIT :: "env \<Rightarrow> number" where
  "BLOCK_PAUSE_UPPER_LIMIT e = envNumber e ''BLOCK_PAUSE_UPPER_LIMIT'' (js_mul (Fin 30) (Fin 1000))"

definition BLOCK_PAUSE_LOWER_LIMIT :: "env \<Rightarrow> number" where
  "BLOCK_PAUSE_LOWER_LIMIT e =
     envNumber e ''BLOCK_PAUSE_LOWER_LIMIT'' (js_mul (double (1 / 2)) (Fin 1000))"

text \<open>The module-level \<^verbatim>\<open>assert(BLOCK_PAUSE_FACTOR > 1)\<close>: the module loads only if it holds.\<close>

definition moduleLoads :: "env \<Rightarrow> bool" where
  "moduleLoads e = js_lt (Fin 1) (BLOCK_PAUSE_FACTOR e)"

section \<open>Data of the monitor\<close>

record SourcifyChain =
  chainId :: int
  name :: string
  rpc :: "string list"

text \<open>
  The fields of an ethers \<^verbatim>\<open>TransactionResponse\<close> the monitor reads: \<^verbatim>\<open>to\<close>, \<^verbatim>\<open>hash\<close>, and
  the sender and nonce that \<^verbatim>\<open>getCreateAddress\<close> derives the address from
  (\<^verbatim>\<open>to\<close> and \<^verbatim>\<open>from\<close> are keywords here, hence the prefix).
\<close>

record TransactionResponse =
  tx_to :: "string option"
  tx_hash :: string
  tx_from :: string
  tx_nonce :: int

record Block =
  prefetchedTransactions :: "TransactionResponse list"

text \<open>\<^verbatim>\<open>!tx.to\<close>: \<^verbatim>\<open>null\<close> and the empty string are falsy.\<close>

definition createsContract :: "TransactionResponse \<Rightarrow> bool" where
  "createsContract tx = (case tx_to tx of None \<Rightarrow> True | Some a \<Rightarrow> a = [])"

text \<open>
  The provider \<^verbatim>\<open>start\<close> builds for an endpoint: the constructor chosen, the URL, and the
  network \<^verbatim>\<open>{name, chainId}\<close>.
\<close>

datatype Provider =
    JsonRpcProvider string string int
  | WebSocketProvider string string int

definition startsWith :: "string \<Rightarrow> string \<Rightarrow> bool" where
  "startsWith s p = (take (length p) s = p)"

definition newProvider :: "SourcifyChain \<Rightarrow> string \<Rightarrow> Provider" where
  "newProvider chain providerURL =
     (if startsWith providerURL ''http''
      then JsonRpcProvider providerURL (name chain) (chainId chain)
      else WebSocketProvider providerURL (name chain) (chainId chain))"

text \<open>
  What an observer sees, in order: the events given to \<^verbatim>\<open>SourcifyEventManager.trigger\<close>
  with their payloads (an error's \<^verbatim>\<open>message\<close> stands for \<^verbatim>\<open>message\<close> and \<^verbatim>\<open>stack\<close>), the
  signal of \<^verbatim>\<open>this.emit\<close>, the line of \<^verbatim>\<open>logger.info\<close>, every RPC call with the provider
  it is made on, and the hand-off to \<^verbatim>\<open>sourceFetcher.assemble\<close> (metadata address, then the
  \<^verbatim>\<open>address\<close> and \<^verbatim>\<open>creatorTxHash\<close> its callback keeps).
\<close>

datatype effect =
    Monitor_Started string string number number
  | Monitor_Stopped string
  | Monitor_ProcessingBlock number string number
  | Monitor_AlreadyVerified string string
  | Monitor_NewContract string string
  | Monitor_Error_CantStart string string
  | Monitor_Error_ProcessingBlock string string number
  | Monitor_Error_ProcessingBytecode string string string
  | Monitor_Error_GettingBytecode string string string
  | emit_contract_already_verified int string
  | logger_info string string
  | rpc_getBlockNumber Provider
  | rpc_getBlock Provider number
  | rpc_getCode Provider string
  | sourceFetcher_assemble string string string

text \<open>A call handed to \<^verbatim>\<open>setTimeout\<close>: the handler with its arguments.\<close>

datatype timerCall =
    CallProcessBlock number
  | CallProcessBytecode string string number

text \<open>
  A call in flight, with the variables its continuation keeps: the probe of \<^verbatim>\<open>start\<close>
  (\<^verbatim>\<open>providerURL\<close>, \<^verbatim>\<open>provider\<close>, the endpoints still to try, \<^verbatim>\<open>rawStartBlock\<close>, \<^verbatim>\<open>found\<close>), the
  \<^verbatim>\<open>getBlock\<close> of \<^verbatim>\<open>processBlock\<close> (\<^verbatim>\<open>blockNumber\<close>), the \<^verbatim>\<open>getCode\<close> of \<^verbatim>\<open>processBytecode\<close>
  (\<^verbatim>\<open>creatorTxHash\<close>, \<^verbatim>\<open>address\<close>, and \<^verbatim>\<open>retriesLeft\<close> after its decrement).
\<close>

datatype inFlight =
    AwaitGetBlockNumber string Provider "string list" "codeUnits option" bool
  | AwaitGetBlock number
  | AwaitGetCode string string number

record ChainMonitor =
  sourcifyChain :: SourcifyChain
  provider :: "Provider option"
  repositoryService :: "string \<Rightarrow> string \<Rightarrow> string list"
  running :: bool
  getBytecodeRetryPause :: number
  getBlockPause :: number
  initialGetBytecodeTries :: number
  timers :: "(timerCall \<times> number) list"
  pending :: "inFlight list"
  effects :: "effect list"

text \<open>
  \<open>repositoryService\<close> is \<^verbatim>\<open>checkByChainAndAddress(address, chainId)\<close>.  \<open>timers\<close>,
  \<open>pending\<close> and \<open>effects\<close> are the monitor's part of the event loop: the timeouts set and
  not yet fired, the calls not yet settled, and what was observed so far.

  The library functions the monitor calls: \<^verbatim>\<open>getCreateAddress\<close> of ethers, \<^verbatim>\<open>decode\<close> of
  bytecode-utils and \<^verbatim>\<open>SourceAddress.fromCborData\<close>; the last two may throw (\<open>Inl\<close> the
  message).  \<open>Number_toString\<close> is the text JavaScript gives a number in a template, the
  built-in conversion, which the monitor needs for one message only.  The other
  collaborators are taken not to throw: the event manager, the logger, the listeners of
  \<^verbatim>\<open>emit\<close>, the repository's check, the constructors of the providers and
  \<^verbatim>\<open>sourceFetcher.assemble\<close>.  The model ends at the hand-off to \<^verbatim>\<open>assemble\<close>:
  \<^verbatim>\<open>verifyAndStore\<close> runs in the fetcher's callback, calls the verification and repository
  services only, and neither makes an RPC call nor sets a timer.
\<close>

record lib =
  getCreateAddress :: "TransactionResponse \<Rightarrow> string"
  bytecodeDecode :: "string \<Rightarrow> string + string"
  fromCborData :: "string \<Rightarrow> string + string"
  Number_toString :: "number \<Rightarrow> string"

text \<open>
  A thrown \<^verbatim>\<open>Error\<close>: the one of \<^verbatim>\<open>processBlock\<close>, whose message names the block number,
  or one with a fixed message.  \<open>NotEnabled\<close> is not an error of the program: it marks an
  event the state does not offer (a timer or a call that is not there).
\<close>

datatype error = Error string | ErrorProcessBlock number | NotEnabled

definition message :: "lib \<Rightarrow> error \<Rightarrow> string" where
  "message l err =
     (case err of
        Error m \<Rightarrow> m
      | ErrorProcessBlock blockNumber \<Rightarrow>
          ''Can't process block '' @ Number_toString l blockNumber
            @ ''. Provider not initialized''
      | NotEnabled \<Rightarrow> [])"

section \<open>The operations of \<open>ChainMonitor\<close>\<close>

definition chainIdString :: "ChainMonitor \<Rightarrow> string" where
  "chainIdString s = toString (chainId (sourcifyChain s))"

definition trigger :: "effect \<Rightarrow> ChainMonitor \<Rightarrow> ChainMonitor" where
  "trigger ev s = s\<lparr>effects := effects s @ [ev]\<rparr>"

definition newChainMonitor ::
  "env \<Rightarrow> SourcifyChain \<Rightarrow> (string \<Rightarrow> string \<Rightarrow> string list) \<Rightarrow> ChainMonitor" where
  "newChainMonitor e chain repository =
     \<lparr>sourcifyChain = chain,
      provider = None,
      repositoryService = repository,
      running = False,
      getBytecodeRetryPause =
        envNumber e ''GET_BYTECODE_RETRY_PAUSE'' (js_mul (Fin 5) (Fin 1000)),
      getBlockPause = envNumber e ''GET_BLOCK_PAUSE'' (js_mul (Fin 10) (Fin 1000)),
      initialGetBytecodeTries = envNumber e ''INITIAL_GET_BYTECODE_TRIES'' (Fin 3),
      timers = [],
      pending = [],
      effects = []\<rparr>"

text \<open>\<^verbatim>\<open>mySetTimeout\<close>: the flag is read when the timeout is set, not when it fires.\<close>

definition mySetTimeout :: "ChainMonitor \<Rightarrow> timerCall \<Rightarrow> number \<Rightarrow> ChainMonitor" where
  "mySetTimeout s handler timeout =
     (if running s then s\<lparr>timers := timers s @ [(handler, timeout)]\<rparr> else s)"

datatype operation = increase | decrease

definition adaptBlockPause :: "env \<Rightarrow> operation \<Rightarrow> ChainMonitor \<Rightarrow> ChainMonitor" where
  "adaptBlockPause e operation s =
     (let factor = (if operation = increase then BLOCK_PAUSE_FACTOR e
                    else js_div (Fin 1) (BLOCK_PAUSE_FACTOR e));
          p1 = js_mul (getBlockPause s) factor;
          p2 = Math_min p1 (BLOCK_PAUSE_UPPER_LIMIT e);
          p3 = Math_max p2 (BLOCK_PAUSE_LOWER_LIMIT e)
      in s\<lparr>getBlockPause := p3\<rparr>)"

definition isVerified :: "ChainMonitor \<Rightarrow> string \<Rightarrow> bool" where
  "isVerified s address = (length (repositoryService s address (chainIdString s)) \<noteq> 0)"

text \<open>
  \<^verbatim>\<open>processBlock\<close> up to its \<^verbatim>\<open>getBlock\<close> call, and \<^verbatim>\<open>processBytecode\<close> up to its \<^verbatim>\<open>getCode\<close>
  call; both throw when there is no provider (\<open>Inl\<close>, the state as it was).
\<close>

definition processBlock :: "ChainMonitor \<Rightarrow> number \<Rightarrow> error + ChainMonitor" where
  "processBlock s blockNumber =
     (case provider s of
        None \<Rightarrow> Inl (ErrorProcessBlock blockNumber)
      | Some p \<Rightarrow>
          Inr (s\<lparr>pending := pending s @ [AwaitGetBlock blockNumber],
                 effects := effects s @ [rpc_getBlock p blockNumber]\<rparr>))"

definition processBytecode ::
  "ChainMonitor \<Rightarrow> string \<Rightarrow> string \<Rightarrow> number \<Rightarrow> error + ChainMonitor" where
  "processBytecode s creatorTxHash address retriesLeft =
     (if js_le retriesLeft (Fin 0) then Inr s
      else case provider s of
        None \<Rightarrow> Inl (Error ''Can't process bytecode. Provider not initialized'')
      | Some p \<Rightarrow>
          Inr (s\<lparr>pending := pending s @ [AwaitGetCode creatorTxHash address (decrement retriesLeft)],
                 effects := effects s @ [rpc_getCode p address]\<rparr>))"

text \<open>
  The loop over \<^verbatim>\<open>block.prefetchedTransactions\<close> in the continuation of \<^verbatim>\<open>getBlock\<close>.  It
  returns the error thrown, if any, together with the state at that point: what was
  triggered before a throw stays triggered.
\<close>

fun processTransactions ::
  "lib \<Rightarrow> ChainMonitor \<Rightarrow> TransactionResponse list \<Rightarrow> error option \<times> ChainMonitor" where
  "processTransactions l s [] = (None, s)"
| "processTransactions l s (tx # txs) =
     (if createsContract tx then
        (let address = getCreateAddress l tx in
         if isVerified s address then
           processTransactions l
             (trigger (emit_contract_already_verified (chainId (sourcifyChain s)) address)
               (trigger (Monitor_AlreadyVerified address (chainIdString s)) s)) txs
         else
           (let s1 = trigger (Monitor_NewContract address (chainIdString s)) s in
            case processBytecode s1 (tx_hash tx) address (initialGetBytecodeTries s1) of
              Inl err \<Rightarrow> (Some err, s1)
            | Inr s2 \<Rightarrow> processTransactions l s2 txs))
      else processTransactions l s txs)"

text \<open>
  The \<^verbatim>\<open>.then\<close>, \<^verbatim>\<open>.catch\<close> and \<^verbatim>\<open>.finally\<close> of \<^verbatim>\<open>processBlock\<close>, run when \<^verbatim>\<open>getBlock\<close> settles:
  \<open>Inl\<close> is a rejection with its message, \<open>Inr None\<close> the \<^verbatim>\<open>null\<close> block.  The three
  handlers run as microtasks with no other task of the monitor between them, so they are
  one step.
\<close>

definition getBlock_settled ::
  "env \<Rightarrow> lib \<Rightarrow> ChainMonitor \<Rightarrow> number \<Rightarrow> string + Block option \<Rightarrow> ChainMonitor" where
  "getBlock_settled e l s blockNumber outcome =
     (let (s', blockNumber') =
        (case outcome of
           Inr None \<Rightarrow> (adaptBlockPause e increase s, blockNumber)
         | Inr (Some block) \<Rightarrow>
             (let s1 = adaptBlockPause e decrease s;
                  s2 = trigger (Monitor_ProcessingBlock blockNumber (chainIdString s1)
                                  (getBlockPause s1)) s1
              in case processTransactions l s2 (prefetchedTransactions block) of
                   (None, s3) \<Rightarrow> (s3, increment blockNumber)
                 | (Some err, s3) \<Rightarrow>
                     (trigger (Monitor_Error_ProcessingBlock (message l err) (chainIdString s3)
                                 blockNumber) s3,
                      blockNumber))
         | Inl msg \<Rightarrow>
             (trigger (Monitor_Error_ProcessingBlock msg (chainIdString s) blockNumber) s,
              blockNumber))
      in mySetTimeout s' (CallProcessBlock blockNumber') (getBlockPause s'))"

text \<open>The \<^verbatim>\<open>.then\<close> and \<^verbatim>\<open>.catch\<close> of \<^verbatim>\<open>processBytecode\<close>, run when \<^verbatim>\<open>getCode\<close> settles.\<close>

definition getCode_settled ::
  "lib \<Rightarrow> ChainMonitor \<Rightarrow> string \<Rightarrow> string \<Rightarrow> number \<Rightarrow> string + string \<Rightarrow> ChainMonitor"
  where
  "getCode_settled l s creatorTxHash address retriesLeft outcome =
     (case outcome of
        Inr bytecode \<Rightarrow>
          if bytecode = ''0x'' then
            mySetTimeout s (CallProcessBytecode creatorTxHash address retriesLeft)
              (getBytecodeRetryPause s)
          else
            (case bytecodeDecode l bytecode of
               Inl msg \<Rightarrow>
                 trigger (Monitor_Error_ProcessingBytecode msg (chainIdString s) address) s
             | Inr cborData \<Rightarrow>
                 (case fromCborData l cborData of
                    Inl msg \<Rightarrow>
                      trigger (Monitor_Error_ProcessingBytecode msg (chainIdString s) address) s
                  | Inr metadataAddress \<Rightarrow>
                      trigger (sourceFetcher_assemble metadataAddress address creatorTxHash) s))
      | Inl msg \<Rightarrow>
          mySetTimeout
            (trigger (Monitor_Error_GettingBytecode msg (chainIdString s) address) s)
            (CallProcessBytecode creatorTxHash address retriesLeft)
            (getBytecodeRetryPause s))"

text \<open>
  \<^verbatim>\<open>start\<close> is an \<^verbatim>\<open>async\<close> function: it runs to its first \<^verbatim>\<open>await\<close> (the probe of the first
  endpoint) and goes on when the probe settles.  \<open>startLoop\<close> is the \<^verbatim>\<open>for\<close> loop from the
  endpoints still to try, with the test of \<^verbatim>\<open>found\<close> that follows the loop.
\<close>

definition startLoop ::
  "ChainMonitor \<Rightarrow> string list \<Rightarrow> codeUnits option \<Rightarrow> bool \<Rightarrow> ChainMonitor" where
  "startLoop s urls rawStartBlock found =
     (case urls of
        [] \<Rightarrow>
          if \<not> found then
            trigger (Monitor_Error_CantStart (chainIdString s)
                       ''Couldn't find a working RPC node.'') s
          else s
      | providerURL # rest \<Rightarrow>
          (let p = newProvider (sourcifyChain s) providerURL in
           s\<lparr>pending := pending s @ [AwaitGetBlockNumber providerURL p rest rawStartBlock found],
             effects := effects s @ [rpc_getBlockNumber p]\<rparr>))"

definition start :: "env \<Rightarrow> ChainMonitor \<Rightarrow> ChainMonitor" where
  "start e s =
     (let s1 = s\<lparr>running := True\<rparr>;
          rawStartBlock = e (''MONITOR_START_'' @ chainIdString s1)
      in startLoop s1 (rpc (sourcifyChain s1)) rawStartBlock False)"

definition getBlockNumber_settled ::
  "lib \<Rightarrow> ChainMonitor \<Rightarrow> string \<Rightarrow> Provider \<Rightarrow> string list \<Rightarrow> codeUnits option \<Rightarrow> bool
     \<Rightarrow> string + number \<Rightarrow> ChainMonitor" where
  "getBlockNumber_settled l s providerURL p rest rawStartBlock found outcome =
     (case outcome of
        Inr lastBlockNumber \<Rightarrow>
          (let s1 = s\<lparr>provider := Some p\<rparr>;
               startBlock = (case rawStartBlock of
                               Some raw \<Rightarrow> parseInt raw
                             | None \<Rightarrow> lastBlockNumber);
               s2 = trigger (Monitor_Started (chainIdString s1) providerURL lastBlockNumber
                               startBlock) s1
           in case processBlock s2 startBlock of
                Inr s3 \<Rightarrow> s3
              | Inl err \<Rightarrow>
                  startLoop (trigger (logger_info providerURL (message l err)) s2) rest
                    rawStartBlock True)
      | Inl msg \<Rightarrow>
          startLoop (trigger (logger_info providerURL msg) s) rest rawStartBlock found)"

definition stop :: "ChainMonitor \<Rightarrow> ChainMonitor" where
  "stop s = (trigger (Monitor_Stopped (chainIdString s)) s)\<lparr>running := False\<rparr>"

section \<open>The event loop\<close>

text \<open>
  What can happen to a monitor: \<^verbatim>\<open>start()\<close> or \<^verbatim>\<open>stop()\<close> is called, a timeout that was set
  fires (the \<open>i\<close>-th of \<open>timers\<close>, in any order: time is not modelled), or a call in flight
  settles (the \<open>i\<close>-th of \<open>pending\<close>) with a value or a rejection.  An exception out of a
  timer's handler is uncaught: the step returns it and the run ends there.
\<close>

datatype settlement =
    BlockNumberIs "string + number"
  | BlockIs "string + Block option"
  | CodeIs "string + string"

datatype event =
    CallStart
  | CallStop
  | TimerFires nat
  | Settles nat settlement

definition removeAt :: "nat \<Rightarrow> 'a list \<Rightarrow> 'a list" where
  "removeAt i xs = take i xs @ drop (Suc i) xs"

definition fire :: "ChainMonitor \<Rightarrow> nat \<Rightarrow> error + ChainMonitor" where
  "fire s i =
     (if i < length (timers s) then
        (let s1 = s\<lparr>timers := removeAt i (timers s)\<rparr> in
         case fst (timers s ! i) of
           CallProcessBlock blockNumber \<Rightarrow> processBlock s1 blockNumber
         | CallProcessBytecode creatorTxHash address retriesLeft \<Rightarrow>
             processBytecode s1 creatorTxHash address retriesLeft)
      else Inl NotEnabled)"

definition settle ::
  "env \<Rightarrow> lib \<Rightarrow> ChainMonitor \<Rightarrow> nat \<Rightarrow> settlement \<Rightarrow> error + ChainMonitor" where
  "settle e l s i outcome =
     (if i < length (pending s) then
        (let s1 = s\<lparr>pending := removeAt i (pending s)\<rparr> in
         case (pending s ! i, outcome) of
           (AwaitGetBlockNumber providerURL p rest rawStartBlock found, BlockNumberIs r) \<Rightarrow>
             Inr (getBlockNumber_settled l s1 providerURL p rest rawStartBlock found r)
         | (AwaitGetBlock blockNumber, BlockIs r) \<Rightarrow>
             Inr (getBlock_settled e l s1 blockNumber r)
         | (AwaitGetCode creatorTxHash address retriesLeft, CodeIs r) \<Rightarrow>
             Inr (getCode_settled l s1 creatorTxHash address retriesLeft r)
         | _ \<Rightarrow> Inl NotEnabled)
      else Inl NotEnabled)"

definition step :: "env \<Rightarrow> lib \<Rightarrow> event \<Rightarrow> ChainMonitor \<Rightarrow> error + ChainMonitor" where
  "step e l ev s =
     (case ev of
        CallStart \<Rightarrow> Inr (start e s)
      | CallStop \<Rightarrow> Inr (stop s)
      | TimerFires i \<Rightarrow> fire s i
      | Settles i outcome \<Rightarrow> settle e l s i outcome)"

fun run :: "env \<Rightarrow> lib \<Rightarrow> event list \<Rightarrow> ChainMonitor \<Rightarrow> error + ChainMonitor" where
  "run e l [] s = Inr s"
| "run e l (ev # evs) s =
     (case step e l ev s of
        Inl err \<Rightarrow> Inl err
      | Inr s' \<Rightarrow> run e l evs s')"

section \<open>The supervisor\<close>

text \<open>
  \<^verbatim>\<open>Monitor\<close> owns the chain monitors and the shared \<^verbatim>\<open>SourceFetcher\<close>.  The fetcher is not
  part of this file; \<open>sourceFetcherStops\<close> counts the \<^verbatim>\<open>stop()\<close> calls it has received.
\<close>

record Monitor =
  chainMonitors :: "ChainMonitor list"
  sourceFetcherStops :: nat

definition newMonitor ::
  "env \<Rightarrow> SourcifyChain list \<Rightarrow> (string \<Rightarrow> string \<Rightarrow> string list)
     \<Rightarrow> SourcifyChain list option \<Rightarrow> Monitor" where
  "newMonitor e monitoredChainArray repository chainsToMonitor =
     (let chains = (case chainsToMonitor of
                      None \<Rightarrow> monitoredChainArray
                    | Some cs \<Rightarrow> if length cs \<noteq> 0 then cs else monitoredChainArray)
      in \<lparr>chainMonitors = map (\<lambda>c. newChainMonitor e c repository) chains,
          sourceFetcherStops = 0\<rparr>)"

definition Monitor_start :: "env \<Rightarrow> Monitor \<Rightarrow> Monitor" where
  "Monitor_start e m = m\<lparr>chainMonitors := map (start e) (chainMonitors m)\<rparr>"

definition Monitor_stop :: "Monitor \<Rightarrow> Monitor" where
  "Monitor_stop m =
     m\<lparr>chainMonitors := map stop (chainMonitors m),
       sourceFetcherStops := Suc (sourceFetcherStops m)\<rparr>"

section \<open>Vocabulary of the statements\<close>

text \<open>
  The events of \<open>start\<close>'s probes failing one after the other, each settling the call at
  position \<open>k\<close> with a message, and what is observed of the failed probes: for each
  endpoint its \<open>getBlockNumber\<close> call and the line \<open>logger.info\<close> writes.
\<close>

definition probeFails :: "nat \<Rightarrow> string list \<Rightarrow> event list" where
  "probeFails k errs = map (\<lambda>m. Settles k (BlockNumberIs (Inl m))) errs"

fun failedProbes :: "SourcifyChain \<Rightarrow> string list \<Rightarrow> string list \<Rightarrow> effect list" where
  "failedProbes chain (u # us) (m # ms) =
     rpc_getBlockNumber (newProvider chain u) # logger_info u m # failedProbes chain us ms"
| "failedProbes chain us ms = []"

text \<open>
  The factor of an update of the pause: \<^verbatim>\<open>BLOCK_PAUSE_FACTOR\<close> for \<^verbatim>\<open>"increase"\<close> and
  \<^verbatim>\<open>1 / BLOCK_PAUSE_FACTOR\<close> for \<^verbatim>\<open>"decrease"\<close>.
\<close>

definition factorOf :: "env \<Rightarrow> operation \<Rightarrow> number" where
  "factorOf e operation =
     (if operation = increase then BLOCK_PAUSE_FACTOR e
      else js_div (Fin 1) (BLOCK_PAUSE_FACTOR e))"

text \<open>
  The block loop of a monitor at a moment: its \<open>processBlock\<close> timers and the probes and
  \<open>getBlock\<close> calls in flight.
\<close>

fun isBlockCall :: "timerCall \<Rightarrow> bool" where
  "isBlockCall (CallProcessBlock blockNumber) = True"
| "isBlockCall (CallProcessBytecode creatorTxHash address retriesLeft) = False"

fun isBlockFlight :: "inFlight \<Rightarrow> bool" where
  "isBlockFlight (AwaitGetCode creatorTxHash address retriesLeft) = False"
| "isBlockFlight c = True"

definition blockLoops :: "ChainMonitor \<Rightarrow> nat" where
  "blockLoops s =
     length (filter (\<lambda>t. isBlockCall (fst t)) (timers s)) + length (filter isBlockFlight (pending s))"

text \<open>
  The tries of the bytecode tasks for an address \<open>a\<close>: the \<open>getCode\<close> calls made for it so
  far, the tasks started for it (one per \<open>Monitor.NewContract\<close> event), and the tries that
  the bytecode timers and the \<open>getCode\<close> calls in flight for it still hold.  A counter is
  whole below \<open>k\<close> when it is an integer that is at most \<open>k\<close>.  \<open>budget k a x s\<close>: the
  monitor gives \<open>k\<close> tries to a task, all counters are whole below \<open>k\<close>, and the calls
  made for \<open>a\<close>, the tries held for \<open>a\<close> and \<open>x\<close> more are within \<open>k\<close> for each task
  started for \<open>a\<close>.
\<close>

fun isGetCodeOf :: "string \<Rightarrow> effect \<Rightarrow> bool" where
  "isGetCodeOf a (rpc_getCode p address) = (address = a)"
| "isGetCodeOf a ev = False"

fun isNewContractOf :: "string \<Rightarrow> effect \<Rightarrow> bool" where
  "isNewContractOf a (Monitor_NewContract address chain) = (address = a)"
| "isNewContractOf a ev = False"

definition getCodeCalls :: "string \<Rightarrow> ChainMonitor \<Rightarrow> nat" where
  "getCodeCalls a s = length (filter (isGetCodeOf a) (effects s))"

definition tasksStarted :: "string \<Rightarrow> ChainMonitor \<Rightarrow> nat" where
  "tasksStarted a s = length (filter (isNewContractOf a) (effects s))"

definition triesOf :: "number \<Rightarrow> nat" where
  "triesOf r = nat \<lfloor>valueOf r\<rfloor>"

fun triesOfCall :: "string \<Rightarrow> timerCall \<Rightarrow> nat" where
  "triesOfCall a (CallProcessBytecode creatorTxHash address retriesLeft) =
     (if address = a then triesOf retriesLeft else 0)"
| "triesOfCall a (CallProcessBlock blockNumber) = 0"

fun triesInFlight :: "string \<Rightarrow> inFlight \<Rightarrow> nat" where
  "triesInFlight a (AwaitGetCode creatorTxHash address retriesLeft) =
     (if address = a then triesOf retriesLeft else 0)"
| "triesInFlight a c = 0"

definition triesLeft :: "string \<Rightarrow> ChainMonitor \<Rightarrow> nat" where
  "triesLeft a s =
     sum_list (map (\<lambda>t. triesOfCall a (fst t)) (timers s))
       + sum_list (map (triesInFlight a) (pending s))"

definition isWhole :: "int \<Rightarrow> number \<Rightarrow> bool" where
  "isWhole k r = (case r of Fin q \<Rightarrow> of_int \<lfloor>q\<rfloor> = q \<and> \<lfloor>q\<rfloor> \<le> k | _ \<Rightarrow> False)"

fun wholeCall :: "int \<Rightarrow> timerCall \<Rightarrow> bool" where
  "wholeCall k (CallProcessBytecode creatorTxHash address retriesLeft) = isWhole k retriesLeft"
| "wholeCall k (CallProcessBlock blockNumber) = True"

fun wholeFlight :: "int \<Rightarrow> inFlight \<Rightarrow> bool" where
  "wholeFlight k (AwaitGetCode creatorTxHash address retriesLeft) = isWhole k retriesLeft"
| "wholeFlight k c = True"

definition budget :: "int \<Rightarrow> string \<Rightarrow> nat \<Rightarrow> ChainMonitor \<Rightarrow> bool" where
  "budget k a x s =
     (initialGetBytecodeTries s = Fin (of_int k) \<and>
      list_all (\<lambda>t. wholeCall k (fst t)) (timers s) \<and>
      list_all (wholeFlight k) (pending s) \<and>
      getCodeCalls a s + triesLeft a s + x \<le> nat k * tasksStarted a s)"

section \<open>Concrete inputs\<close>

text \<open>
  A chain with two endpoints; a repository that knows nothing and one that knows the
  address \<open>0xC0x01\<close>; library functions that derive the address \<open>0xC\<close> followed by the
  transaction hash and decode only the bytecode \<open>0x60\<close> (the text of a number is given
  for \<open>NaN\<close>, the infinities and the integers, which is all that is used here); a
  contract-creating transaction with a given hash.
\<close>

definition exampleChain :: SourcifyChain where
  "exampleChain = \<lparr>chainId = 5, name = ''Goerli'', rpc = [''http://a'', ''wss://b'']\<rparr>"

definition emptyRepository :: "string \<Rightarrow> string \<Rightarrow> string list" where
  "emptyRepository address chain = []"


definition integerToString :: "number \<Rightarrow> string" where
  "integerToString x =
     (case x of
        NaN \<Rightarrow> ''NaN''
      | PosInf \<Rightarrow> ''Infinity''
      | NegInf \<Rightarrow> ''-Infinity''
      | NegZero \<Rightarrow> ''0''
      | Fin r \<Rightarrow> toString \<lfloor>r\<rfloor>)"

definition exampleLib :: lib where
  "exampleLib =
     \<lparr>getCreateAddress = (\<lambda>tx. ''0xC'' @ tx_hash tx),
      bytecodeDecode = (\<lambda>b. if b = ''0x60'' then Inr ''cbor'' else Inl ''decode failed''),
      fromCborData = (\<lambda>c. Inr ''ipfs''),
      Number_toString = integerToString\<rparr>"

definition creation :: "string \<Rightarrow> TransactionResponse" where
  "creation h = \<lparr>tx_to = None, tx_hash = h, tx_from = ''0xAA'', tx_nonce = 0\<rparr>"

text \<open>
  Environments: nothing set; a floor above the ceiling; a factor and a first pause of 310
  digits, \<open>1\<close> followed by 309 zeros; a start block for chain 5 that is not a number,
  one that is \<open>42\<close> after a no-break space (code unit 160), and one that is 500 written
  in hexadecimal.
\<close>

definition noEnv :: env where
  "noEnv = Map.empty"

definition floorAboveCeiling :: env where
  "floorAboveCeiling = Map.empty(''BLOCK_PAUSE_LOWER_LIMIT'' \<mapsto> ascii ''40000'')"

definition hugeNumbers :: env where
  "hugeNumbers =
     Map.empty(''BLOCK_PAUSE_FACTOR'' \<mapsto> 49 # 48 # replicate 308 48,
               ''GET_BLOCK_PAUSE'' \<mapsto> 49 # 48 # replicate 308 48)"

definition startNotANumber :: env where
  "startNotANumber = Map.empty(''MONITOR_START_5'' \<mapsto> ascii ''latest'')"

definition startAfterNoBreakSpace :: env where
  "startAfterNoBreakSpace = Map.empty(''MONITOR_START_5'' \<mapsto> 160 # ascii ''42'')"

definition startInHex :: env where
  "startInHex = Map.empty(''MONITOR_START_5'' \<mapsto> ascii ''0x1F4'')"

text \<open>
  States of a monitor of the example chain with nothing set in the environment: started
  on its first endpoint with nothing set or in flight, and with one \<open>getCode\<close> call in
  flight.
\<close>

definition startedMonitor :: "(string \<Rightarrow> string \<Rightarrow> string list) \<Rightarrow> ChainMonitor" where
  "startedMonitor repository =
     (newChainMonitor noEnv exampleChain repository)
       \<lparr>provider := Some (JsonRpcProvider ''http://a'' ''Goerli'' 5), running := True\<rparr>"


text \<open>
  The same monitor after \<open>start\<close> found block 500 on the first endpoint, with the
  \<open>getBlock\<close> call for block 500 in flight; and stopped after that call returned \<open>null\<close>,
  with the timer for block 500 still set.
\<close>

definition awaitingBlock :: ChainMonitor where
  "awaitingBlock =
     (startedMonitor emptyRepository)
       \<lparr>pending := [AwaitGetBlock (Fin 500)],
        effects :=
          [rpc_getBlockNumber (JsonRpcProvider ''http://a'' ''Goerli'' 5),
           Monitor_Started ''5'' ''http://a'' (Fin 500) (Fin 500),
           rpc_getBlock (JsonRpcProvider ''http://a'' ''Goerli'' 5) (Fin 500)]\<rparr>"


text \<open>
  An environment that gives a task \<open>2^54\<close> tries, and the monitor of the example chain in
  it after \<open>start\<close> found block 100, the block came with one creation, the block timer
  fired and the \<open>getBlock\<close> call for block 101 is in flight, and the task of that creation
  has tried \<open>n + 1\<close> times more after its first try, each answered \<open>0x\<close>: the tries left
  are \<open>2^54\<close> still.  A round of that task: its call answers \<open>0x\<close> and its timer fires.
\<close>

definition manyTries :: env where
  "manyTries = Map.empty(''INITIAL_GET_BYTECODE_TRIES'' \<mapsto> ascii ''18014398509481984'')"

definition retrying :: "nat \<Rightarrow> ChainMonitor" where
  "retrying n =
     \<lparr>sourcifyChain = exampleChain,
      provider = Some (JsonRpcProvider ''http://a'' ''Goerli'' 5),
      repositoryService = emptyRepository,
      running = True,
      getBytecodeRetryPause = Fin 5000,
      getBlockPause = Fin (4997780126254545 / 549755813888),
      initialGetBytecodeTries = Fin 18014398509481984,
      timers = [],
      pending = [AwaitGetBlock (Fin 101),
                 AwaitGetCode ''0x01'' ''0xC0x01'' (Fin 18014398509481984)],
      effects =
        [rpc_getBlockNumber (JsonRpcProvider ''http://a'' ''Goerli'' 5),
         Monitor_Started ''5'' ''http://a'' (Fin 100) (Fin 100),
         rpc_getBlock (JsonRpcProvider ''http://a'' ''Goerli'' 5) (Fin 100),
         Monitor_ProcessingBlock (Fin 100) ''5'' (Fin (4997780126254545 / 549755813888)),
         Monitor_NewContract ''0xC0x01'' ''5'',
         rpc_getCode (JsonRpcProvider ''http://a'' ''Goerli'' 5) ''0xC0x01'',
         rpc_getBlock (JsonRpcProvider ''http://a'' ''Goerli'' 5) (Fin 101)]
        @ replicate (Suc n) (rpc_getCode (JsonRpcProvider ''http://a'' ''Goerli'' 5) ''0xC0x01'')\<rparr>"

definition retryRound :: "event list" where
  "retryRound = [Settles 1 (CodeIs (Inr ''0x'')), TimerFires 0]"

text \<open>
  An environment whose start block for chain 5 is \<open>2^53\<close>, and a block with no
  transaction.
\<close>

definition startAtLimit :: env where
  "startAtLimit = Map.empty(''MONITOR_START_5'' \<mapsto> ascii ''9007199254740992'')"

definition emptyBlock :: Block where
  "emptyBlock = \<lparr>prefetchedTransactions = []\<rparr>"

section \<open>Rounding and arithmetic of doubles\<close>

lemma pow2_pos [simp]: "0 < pow2 e"
  by (simp add: pow2_def)

lemma pow2_nonneg [simp]: "0 \<le> pow2 e"
  by (simp add: pow2_def)

lemma pow2_nonzero [simp]: "pow2 e \<noteq> 0"
  by (simp add: pow2_def)

lemma pow2_add: "pow2 (m + n) = pow2 m * pow2 n"
  by (simp add: pow2_def power_int_add)

lemma pow2_diff: "pow2 (m - n) = pow2 m / pow2 n"
  by (simp add: pow2_def power_int_diff)

lemma pow2_nat: "pow2 (int k) = 2 ^ k"
  by (simp add: pow2_def)

lemma pow2_less_iff [simp]: "pow2 m < pow2 n \<longleftrightarrow> m < n"
proof
  assume "pow2 m < pow2 n"
  show "m < n"
  proof (rule ccontr)
    assume "\<not> m < n"
    then have "n \<le> m" by simp
    then have "pow2 n \<le> pow2 m"
      unfolding pow2_def by (intro power_int_increasing) simp_all
    with \<open>pow2 m < pow2 n\<close> show False by simp
  qed
next
  assume "m < n"
  then show "pow2 m < pow2 n"
    unfolding pow2_def by (intro power_int_strict_increasing) simp_all
qed

lemma pow2_le_iff [simp]: "pow2 m \<le> pow2 n \<longleftrightarrow> m \<le> n"
  using pow2_less_iff [of n m] by (auto simp add: not_less [symmetric] simp del: pow2_less_iff)

lemma roundHalfEven_of_int [simp]: "roundHalfEven (of_int k) = k"
  by (simp add: roundHalfEven_def)

lemma floor_le_roundHalfEven: "\<lfloor>q\<rfloor> \<le> roundHalfEven q"
  by (simp add: roundHalfEven_def Let_def)

lemma of_int_bitlen_bounds:
  assumes "0 < p"
  shows "pow2 (bitlen p - 1) \<le> of_int p" and "of_int p < pow2 (bitlen p)"
proof -
  from assms have b: "1 \<le> bitlen p" by (simp add: bitlen_alt_def)
  from bitlen_bounds [OF assms] have "2 ^ nat (bitlen p - 1) \<le> p" "p < 2 ^ nat (bitlen p)"
    by simp_all
  then have "(of_int (2 ^ nat (bitlen p - 1)) :: rat) \<le> of_int p"
    "(of_int p :: rat) < of_int (2 ^ nat (bitlen p))"
    by (simp_all only: of_int_le_iff of_int_less_iff)
  with b show "pow2 (bitlen p - 1) \<le> of_int p" and "of_int p < pow2 (bitlen p)"
    by (simp_all add: pow2_def power_int_def)
qed

lemma binade_bounds:
  assumes "0 < a"
  shows "pow2 (binade a) \<le> a" and "a < pow2 (binade a + 1)"
proof -
  obtain p q where pq: "quotient_of a = (p, q)" by (cases "quotient_of a")
  then have q: "0 < q" by (rule quotient_of_denom_pos)
  from pq have a: "a = of_int p / of_int q" by (rule quotient_of_div)
  with assms q have p: "0 < p" by (simp add: zero_less_divide_iff)
  define bp where "bp = bitlen p"
  define bq where "bq = bitlen q"
  note P = of_int_bitlen_bounds [OF p, folded bp_def]
  note Q = of_int_bitlen_bounds [OF q, folded bq_def]
  have qpos: "(0::rat) < of_int q" using q by simp
  have lower: "pow2 (bp - bq - 1) < a"
  proof -
    have "pow2 (bp - bq - 1) * of_int q < pow2 (bp - bq - 1) * pow2 bq"
      using Q(2) by (simp add: mult_less_cancel_left_pos)
    also have "\<dots> = pow2 (bp - 1)"
      by (simp add: pow2_add [symmetric])
    also have "\<dots> \<le> of_int p" by (rule P(1))
    finally show ?thesis using qpos by (simp add: a pos_less_divide_eq)
  qed
  have upper: "a < pow2 (bp - bq + 1)"
  proof -
    have "of_int p < pow2 bp" by (rule P(2))
    also have "\<dots> = pow2 (bp - bq + 1) * pow2 (bq - 1)"
      by (simp add: pow2_add [symmetric])
    also have "\<dots> \<le> pow2 (bp - bq + 1) * of_int q"
      using Q(1) by (simp add: mult_le_cancel_left_pos)
    finally show ?thesis using qpos by (simp add: a pos_divide_less_eq)
  qed
  have b: "binade a = (if pow2 (bp - bq) \<le> a then bp - bq else bp - bq - 1)"
    by (simp add: binade_def pq bp_def bq_def Let_def)
  show "pow2 (binade a) \<le> a"
    using lower by (simp add: b)
  show "a < pow2 (binade a + 1)"
    using upper by (auto simp add: b)
qed

lemma binade_eqI:
  assumes "pow2 b \<le> a" and "a < pow2 (b + 1)"
  shows "binade a = b"
proof -
  have "0 < pow2 b" by simp
  with assms(1) have a: "0 < a" by linarith
  note bb = binade_bounds [OF a]
  have "pow2 b < pow2 (binade a + 1)" using assms(1) bb(2) by (rule le_less_trans)
  then have 1: "b < binade a + 1" by simp
  have "pow2 (binade a) < pow2 (b + 1)" using bb(1) assms(2) by (rule le_less_trans)
  then have 2: "binade a < b + 1" by simp
  from 1 2 show ?thesis by simp
qed


lemma roundMagnitude_eval:
  assumes "pow2 b \<le> a" and "a < pow2 (b + 1)"
  shows "roundMagnitude a =
     of_int (roundHalfEven (a / pow2 (max b (- 1022) - 52))) * pow2 (max b (- 1022) - 52)"
  by (simp add: roundMagnitude_def binade_eqI [OF assms] Let_def)

lemma roundMagnitude_exact:
  assumes m: "0 < m" "m < 2 ^ 53" and e: "- 1074 \<le> e"
  shows "roundMagnitude (of_int m * pow2 e) = of_int m * pow2 e"
proof -
  define a where "a = (of_int m :: rat) * pow2 e"
  have a: "0 < a" using m(1) by (simp add: a_def)
  define u where "u = max (binade a) (- 1022) - 52"
  have "(of_int m :: rat) < of_int (2 ^ 53)" using m(2) by (simp only: of_int_less_iff)
  also have "(of_int (2 ^ 53) :: rat) = pow2 53" by (simp add: pow2_def)
  finally have "a < pow2 53 * pow2 e" by (simp add: a_def mult_less_cancel_right_pos)
  also have "\<dots> = pow2 (53 + e)" by (simp add: pow2_add)
  finally have "a < pow2 (53 + e)" .
  with binade_bounds(1) [OF a] have "pow2 (binade a) < pow2 (53 + e)"
    by (rule le_less_trans)
  then have "binade a < 53 + e" by simp
  with e have "u \<le> e" by (simp add: u_def)
  then have "e = u + int (nat (e - u))" by simp
  then obtain k where k: "e = u + int k" ..
  have "a / pow2 u = of_int m * (pow2 e / pow2 u)" by (simp add: a_def)
  also have "pow2 e / pow2 u = pow2 (int k)" by (simp add: k pow2_add)
  also have "of_int m * pow2 (int k) = of_int (m * 2 ^ k)" by (simp add: pow2_nat)
  finally have q: "a / pow2 u = of_int (m * 2 ^ k)" .
  have "roundMagnitude a = of_int (roundHalfEven (a / pow2 u)) * pow2 u"
    by (simp add: roundMagnitude_def Let_def u_def)
  also have "\<dots> = (a / pow2 u) * pow2 u"
    by (simp only: q roundHalfEven_of_int)
  also have "\<dots> = a" by simp
  finally show ?thesis by (simp add: a_def)
qed

lemma roundMagnitude_of_int:
  assumes "0 < a" and "a \<le> 2 ^ 53"
  shows "roundMagnitude (of_int a) = of_int a"
proof (cases "a = 2 ^ 53")
  case True
  have "roundMagnitude (of_int (2 ^ 52) * pow2 1) = of_int (2 ^ 52) * pow2 1"
    by (rule roundMagnitude_exact) simp_all
  moreover have "(of_int (2 ^ 52) :: rat) * pow2 1 = of_int (2 ^ 53)"
    by (simp add: pow2_def)
  ultimately show ?thesis by (simp only: True)
next
  case False
  with assms have "a < 2 ^ 53" by simp
  from roundMagnitude_exact [OF assms(1) this, of 0] show ?thesis by (simp add: pow2_def)
qed

lemma of_int_below_pow2_1024:
  assumes "a \<le> 2 ^ 53"
  shows "\<not> pow2 1024 \<le> (of_int a :: rat)"
proof -
  have "(of_int a :: rat) \<le> of_int (2 ^ 53)" using assms by (simp only: of_int_le_iff)
  also have "(of_int (2 ^ 53) :: rat) = pow2 53" by (simp add: pow2_def)
  also have "pow2 53 < pow2 1024" by simp
  finally show ?thesis by simp
qed

lemma roundToDouble_of_int:
  assumes "0 < a" and "a \<le> 2 ^ 53"
  shows "roundToDouble negative (of_int a) = Fin (if negative then - of_int a else of_int a)"
  using assms roundMagnitude_of_int [OF assms] of_int_below_pow2_1024 [OF assms(2)]
  by (simp add: roundToDouble_def Let_def)

lemma double_of_int:
  assumes "\<bar>n\<bar> \<le> 2 ^ 53"
  shows "double (of_int n) = Fin (of_int n)"
proof -
  consider "n = 0" | "0 < n" | "n < 0" by linarith
  then show ?thesis
  proof cases
    case 1
    then show ?thesis by (simp add: double_def roundToDouble_def signedZero_def)
  next
    case 2
    with assms have "n \<le> 2 ^ 53" by simp
    from roundToDouble_of_int [OF 2 this, of False] 2 show ?thesis
      by (simp add: double_def)
  next
    case 3
    with assms have m: "0 < - n" "- n \<le> 2 ^ 53" by simp_all
    from 3 have "double (of_int n) = roundToDouble True (of_int (- n))"
      by (simp add: double_def)
    also from roundToDouble_of_int [OF m, of True] have "\<dots> = Fin (of_int n)"
      by simp
    finally show ?thesis .
  qed
qed

lemma roundToDouble_overflow:
  assumes "pow2 1024 \<le> a"
  shows "roundToDouble negative a = signedInf negative"
proof -
  have "0 < pow2 1024" by simp
  with assms have a: "0 < a" by linarith
  define b where "b = binade a"
  define u where "u = b - 52"
  have "pow2 1024 < pow2 (b + 1)"
    unfolding b_def using assms binade_bounds(2) [OF a] by (rule le_less_trans)
  then have b: "1024 \<le> b" by simp
  have "pow2 52 = pow2 b / pow2 u" by (simp add: u_def pow2_diff [symmetric])
  also have "\<dots> \<le> a / pow2 u"
    using binade_bounds(1) [OF a] by (intro divide_right_mono) (simp_all add: b_def)
  finally have "(of_int (2 ^ 52) :: rat) \<le> a / pow2 u" by (simp add: pow2_def)
  then have "(2 ^ 52 :: int) \<le> \<lfloor>a / pow2 u\<rfloor>" by (simp only: le_floor_iff)
  from order_trans [OF this floor_le_roundHalfEven]
  have "(2 ^ 52 :: int) \<le> roundHalfEven (a / pow2 u)" .
  then have "(of_int (2 ^ 52) :: rat) \<le> of_int (roundHalfEven (a / pow2 u))"
    by (simp only: of_int_le_iff)
  then have "pow2 52 \<le> of_int (roundHalfEven (a / pow2 u))" by (simp add: pow2_def)
  then have "pow2 52 * pow2 u \<le> of_int (roundHalfEven (a / pow2 u)) * pow2 u"
    by (simp add: mult_le_cancel_right_pos)
  moreover have "pow2 52 * pow2 u = pow2 b" by (simp add: u_def pow2_add [symmetric])
  moreover have "pow2 1024 \<le> pow2 b" using b by simp
  ultimately have big: "pow2 1024 \<le> of_int (roundHalfEven (a / pow2 u)) * pow2 u"
    by linarith
  have "max (binade a) (- 1022) - 52 = u" using b by (simp add: u_def b_def)
  with big have "pow2 1024 \<le> roundMagnitude a"
    by (simp add: roundMagnitude_def Let_def)
  with a show ?thesis by (simp add: roundToDouble_def Let_def)
qed

lemma roundToDouble_not_NaN [simp]: "roundToDouble negative a \<noteq> NaN"
  by (simp add: roundToDouble_def signedZero_def signedInf_def Let_def)


lemma roundHalfEven_eqI:
  assumes "\<bar>q - of_int n\<bar> < 1 / 2"
  shows "roundHalfEven q = n"
proof (cases "of_int n \<le> q")
  case True
  with assms have "\<lfloor>q\<rfloor> = n" by (intro floor_unique) linarith+
  with assms True show ?thesis by (simp add: roundHalfEven_def Let_def)
next
  case False
  with assms have f: "\<lfloor>q\<rfloor> = n - 1" by (intro floor_unique) (simp, linarith+)
  from assms False have "1 / 2 < q - of_int (n - 1)" by simp
  with f show ?thesis by (simp add: roundHalfEven_def Let_def)
qed

lemma roundHalfEven_tie:
  "roundHalfEven (of_int f + 1 / 2) = (if even f then f else f + 1)"
proof -
  have "\<lfloor>(of_int f :: rat) + 1 / 2\<rfloor> = f" by (intro floor_unique) simp_all
  then show ?thesis by (simp add: roundHalfEven_def Let_def)
qed

lemma roundToDouble_exact:
  assumes "0 < m" and "m < 2 ^ 53" and "- 1074 \<le> e" and "e \<le> 971"
  shows "roundToDouble negative (of_int m * pow2 e) =
           Fin (if negative then - (of_int m * pow2 e) else of_int m * pow2 e)"
proof -
  have "(of_int m :: rat) < of_int (2 ^ 53)" using assms(2) by (simp only: of_int_less_iff)
  also have "(of_int (2 ^ 53) :: rat) = pow2 53" by (simp add: pow2_def)
  finally have "of_int m * pow2 e < pow2 53 * pow2 e" by (simp add: mult_less_cancel_right_pos)
  also have "\<dots> = pow2 (53 + e)" by (simp add: pow2_add)
  also have "\<dots> \<le> pow2 1024" using assms(4) by simp
  finally have small: "\<not> pow2 1024 \<le> of_int m * pow2 e" by simp
  have pos: "(0::rat) < of_int m * pow2 e" using assms(1) by simp
  from pos small roundMagnitude_exact [OF assms(1-3)] assms(1) show ?thesis
    by (simp add: roundToDouble_def Let_def)
qed

lemma roundToDouble_evalI:
  assumes lo: "pow2 b \<le> a" and hi: "a < pow2 (b + 1)"
    and b: "- 1022 \<le> b" "b \<le> 1022"
    and n: "\<bar>a / pow2 (b - 52) - of_int n\<bar> < 1 / 2"
  shows "roundToDouble negative a =
           Fin (if negative then - (of_int n * pow2 (b - 52)) else of_int n * pow2 (b - 52))"
proof -
  have "0 < pow2 b" by simp
  with lo have a: "0 < a" by linarith
  from b have u: "max b (- 1022) - 52 = b - 52" by simp
  have r: "roundMagnitude a = of_int n * pow2 (b - 52)"
    by (simp only: roundMagnitude_eval [OF lo hi] u roundHalfEven_eqI [OF n])
  have "pow2 52 = pow2 b / pow2 (b - 52)" by (simp add: pow2_diff [symmetric])
  also have "\<dots> \<le> a / pow2 (b - 52)" using lo by (intro divide_right_mono) simp_all
  finally have "pow2 52 \<le> a / pow2 (b - 52)" .
  moreover have "(1::rat) \<le> pow2 52" by (simp add: pow2_def)
  ultimately have "(1 / 2 :: rat) < of_int n" using n by linarith
  then have npos: "0 < n" by linarith
  have "a / pow2 (b - 52) < pow2 (b + 1) / pow2 (b - 52)"
    using hi by (intro divide_strict_right_mono) simp_all
  also have "\<dots> = pow2 53" by (simp add: pow2_diff [symmetric])
  also have "\<dots> = of_int (2 ^ 53)" by (simp add: pow2_def)
  finally have "(of_int n :: rat) < of_int (2 ^ 53) + 1 / 2" using n by linarith
  then have "(of_int n :: rat) < of_int (2 ^ 53 + 1)" by simp
  then have "n < 2 ^ 53 + 1" by (simp only: of_int_less_iff)
  then have "n \<le> 2 ^ 53" by simp
  then have "(of_int n :: rat) \<le> of_int (2 ^ 53)" by (simp only: of_int_le_iff)
  also have "(of_int (2 ^ 53) :: rat) = pow2 53" by (simp add: pow2_def)
  finally have "of_int n * pow2 (b - 52) \<le> pow2 53 * pow2 (b - 52)"
    by (simp add: mult_le_cancel_right_pos)
  also have "\<dots> = pow2 (53 + (b - 52))" by (simp only: pow2_add)
  also have "53 + (b - 52) = b + 1" by simp
  also have "pow2 (b + 1) < pow2 1024" using b by simp
  finally have small: "\<not> pow2 1024 \<le> of_int n * pow2 (b - 52)" by simp
  have nz: "(of_int n :: rat) * pow2 (b - 52) \<noteq> 0" using npos by simp
  from a small nz show ?thesis by (simp add: roundToDouble_def Let_def r)
qed

lemma number_simps [simp]:
  "isInfinite (Fin r) = False" "isInfinite NaN = False" "isInfinite NegZero = False"
  "isInfinite PosInf = True" "isInfinite NegInf = True"
  "valueOf (Fin r) = r" "valueOf NegZero = 0"
  "isZero (Fin r) = (r = 0)" "isZero NegZero = True" "isZero NaN = False"
  "isZero PosInf = False" "isZero NegInf = False"
  "isNegative (Fin r) = (r < 0)" "isNegative NegZero = True" "isNegative NaN = False"
  "isNegative PosInf = False" "isNegative NegInf = True"
  by (simp_all add: isInfinite_def valueOf_def isZero_def isNegative_def)

lemma js_add_of_int:
  assumes "\<bar>a + b\<bar> \<le> 2 ^ 53"
  shows "js_add (Fin (of_int a)) (Fin (of_int b)) = Fin (of_int (a + b))"
proof (cases "a + b = 0")
  case True
  then have "(of_int a :: rat) + of_int b = 0" by (simp only: of_int_add [symmetric])
  moreover from True have "\<not> (a < 0 \<and> b < 0)" by linarith
  ultimately show ?thesis using True by (simp add: js_add_def signedZero_def)
next
  case False
  then have "(of_int (a + b) :: rat) \<noteq> 0" by (simp only: of_int_eq_0_iff) simp
  then have "(of_int a :: rat) + of_int b \<noteq> 0" by simp
  then have "js_add (Fin (of_int a)) (Fin (of_int b)) = double (of_int (a + b))"
    by (simp add: js_add_def)
  with double_of_int [OF assms] show ?thesis by simp
qed

lemma increment_of_int:
  assumes "\<bar>n + 1\<bar> \<le> 2 ^ 53"
  shows "increment (Fin (of_int n)) = Fin (of_int (n + 1))"
  using js_add_of_int [of n 1] assms by (simp add: increment_def)

lemma decrement_of_int:
  assumes "\<bar>n - 1\<bar> \<le> 2 ^ 53"
  shows "decrement (Fin (of_int n)) = Fin (of_int (n - 1))"
  using js_add_of_int [of n "- 1"] assms by (simp add: decrement_def js_sub_def js_neg_def)

lemma js_mul_of_int:
  assumes "0 < a" and "0 < b" and "a * b \<le> 2 ^ 53"
  shows "js_mul (Fin (of_int a)) (Fin (of_int b)) = Fin (of_int (a * b))"
proof -
  from assms have p: "0 < a * b" by simp
  from roundToDouble_of_int [OF p assms(3), of False] assms(1,2) show ?thesis
    by (simp add: js_mul_def)
qed

lemma double_tie_up: "roundToDouble negative 9007199254740993 = Fin (if negative then - 9007199254740992 else 9007199254740992)"
proof -
  have "roundMagnitude 9007199254740993 =
          of_int (roundHalfEven (9007199254740993 / pow2 (max 53 (- 1022) - 52)))
            * pow2 (max 53 (- 1022) - 52)"
    by (rule roundMagnitude_eval) (simp_all add: pow2_def)
  also have "9007199254740993 / pow2 (max 53 (- 1022) - 52) = of_int 4503599627370496 + 1 / 2"
    by (simp add: pow2_def)
  finally have "roundMagnitude 9007199254740993 = 9007199254740992"
    by (simp only: roundHalfEven_tie) (simp add: pow2_def)
  then show ?thesis by (simp add: roundToDouble_def Let_def pow2_def)
qed

lemma increment_stalls: "increment (Fin 9007199254740992) = Fin 9007199254740992"
  using double_tie_up [of False] by (simp add: increment_def js_add_def double_def)

lemma double_tie_down: "roundToDouble negative 18014398509481983 = Fin (if negative then - 18014398509481984 else 18014398509481984)"
proof -
  have "roundMagnitude 18014398509481983 =
          of_int (roundHalfEven (18014398509481983 / pow2 (max 53 (- 1022) - 52)))
            * pow2 (max 53 (- 1022) - 52)"
    by (rule roundMagnitude_eval) (simp_all add: pow2_def)
  also have "18014398509481983 / pow2 (max 53 (- 1022) - 52) = of_int 9007199254740991 + 1 / 2"
    by (simp add: pow2_def)
  finally have "roundMagnitude 18014398509481983 = 18014398509481984"
    by (simp only: roundHalfEven_tie) (simp add: pow2_def)
  then show ?thesis by (simp add: roundToDouble_def Let_def pow2_def)
qed

lemma decrement_stalls: "decrement (Fin 18014398509481984) = Fin 18014398509481984"
  using double_tie_down [of False]
  by (simp add: decrement_def js_sub_def js_neg_def js_add_def double_def)

lemma double_11_10: "double (11 / 10) = Fin (2476979795053773 / 2251799813685248)"
proof -
  have "roundToDouble False (11 / 10) =
          Fin (if False then - (of_int 4953959590107546 * pow2 (0 - 52))
               else of_int 4953959590107546 * pow2 (0 - 52))"
    by (rule roundToDouble_evalI) (simp_all add: pow2_def)
  then show ?thesis by (simp add: double_def pow2_def)
qed

lemma double_half: "double (1 / 2) = Fin (1 / 2)"
  using roundToDouble_exact [of 1 "- 1" False] by (simp add: double_def pow2_def)

section \<open>Evaluation\<close>

lemmas parse_defs =
  parseInt_def stripSign_def stripPrefix_def isWhiteSpace_def isRadixDigit_def
  digitValue_def radixValue_def ascii_def

lemmas env_defs =
  envNumber_def BLOCK_PAUSE_FACTOR_def BLOCK_PAUSE_UPPER_LIMIT_def
  BLOCK_PAUSE_LOWER_LIMIT_def truthy_def

lemma parseInt_empty [simp]: "parseInt [] = NaN"
  by (simp add: parse_defs)

lemma default_numbers:
  "js_mul (Fin 30) (Fin 1000) = Fin 30000"
  "js_mul (double (1 / 2)) (Fin 1000) = Fin 500"
  "js_mul (Fin 5) (Fin 1000) = Fin 5000"
  "js_mul (Fin 10) (Fin 1000) = Fin 10000"
proof -
  show "js_mul (Fin 30) (Fin 1000) = Fin 30000"
    using js_mul_of_int [of 30 1000] by simp
  show "js_mul (Fin 5) (Fin 1000) = Fin 5000"
    using js_mul_of_int [of 5 1000] by simp
  show "js_mul (Fin 10) (Fin 1000) = Fin 10000"
    using js_mul_of_int [of 10 1000] by simp
  show "js_mul (double (1 / 2)) (Fin 1000) = Fin 500"
    using roundToDouble_of_int [of 500 False] by (simp add: double_half js_mul_def)
qed

lemma noEnv_limits:
  "BLOCK_PAUSE_FACTOR noEnv = Fin (2476979795053773 / 2251799813685248)"
  "BLOCK_PAUSE_LOWER_LIMIT noEnv = Fin 500"
  "BLOCK_PAUSE_UPPER_LIMIT noEnv = Fin 30000"
  by (simp_all add: noEnv_def env_defs default_numbers double_11_10)

lemma parseInt_40000: "parseInt (ascii ''40000'') = Fin 40000"
  using roundToDouble_of_int [of 40000 False] by (simp add: parse_defs)

lemma floorAboveCeiling_limits:
  "BLOCK_PAUSE_FACTOR floorAboveCeiling = Fin (2476979795053773 / 2251799813685248)"
  "BLOCK_PAUSE_LOWER_LIMIT floorAboveCeiling = Fin 40000"
  "BLOCK_PAUSE_UPPER_LIMIT floorAboveCeiling = Fin 30000"
  by (simp_all add: floorAboveCeiling_def env_defs default_numbers double_11_10 parseInt_40000)

text \<open>
  \<open>parseInt\<close> rounds: \<open>2^53 + 1\<close> is not a double and reads as \<open>2^53\<close>; and it
  overflows: \<open>1\<close> followed by 309 zeros reads as \<open>Infinity\<close>.
\<close>

lemma parseInt_rounds: "parseInt (ascii ''9007199254740993'') = Fin 9007199254740992"
  using double_tie_up [of False] by (simp add: parse_defs)

lemma radixValue_zeros:
  "radixValue 10 (xs @ replicate n 48) = radixValue 10 xs * 10 ^ n"
proof (induction n)
  case 0
  then show ?case by simp
next
  case (Suc n)
  have "radixValue 10 (xs @ replicate (Suc n) 48) = radixValue 10 ((xs @ replicate n 48) @ [48])"
    by (simp add: replicate_append_same)
  also have "\<dots> = radixValue 10 (xs @ replicate n 48) * 10"
    unfolding radixValue_def by (simp only: foldl_append) (simp add: digitValue_def)
  finally show ?case by (simp add: Suc.IH)
qed

lemma parseInt_huge: "parseInt (49 # 48 # replicate 308 48) = PosInf"
proof -
  have "radixValue 10 ([49, 48] @ replicate 308 48) = radixValue 10 [49, 48] * 10 ^ 308"
    by (rule radixValue_zeros)
  also have "radixValue 10 [49, 48] = 10"
    by (simp add: radixValue_def digitValue_def)
  finally have v: "radixValue 10 (49 # 48 # replicate 308 48) = 10 ^ 309" by simp
  have "pow2 1024 \<le> of_int (10 ^ 309)"
    by (simp add: pow2_def)
  then have "roundToDouble False (of_int (radixValue 10 (49 # 48 # replicate 308 48))) = PosInf"
    by (simp only: v roundToDouble_overflow signedInf_def if_False)
  then show ?thesis
    by (simp add: parseInt_def stripSign_def stripPrefix_def isWhiteSpace_def isRadixDigit_def
          digitValue_def takeWhile_replicate)
qed

lemma hugeNumbers_limits:
  "BLOCK_PAUSE_FACTOR hugeNumbers = PosInf"
  "BLOCK_PAUSE_LOWER_LIMIT hugeNumbers = Fin 500"
  "BLOCK_PAUSE_UPPER_LIMIT hugeNumbers = Fin 30000"
  by (simp_all add: hugeNumbers_def env_defs default_numbers parseInt_huge)

lemma reciprocal_default:
  "js_div (Fin 1) (Fin (2476979795053773 / 2251799813685248)) =
     Fin (8188362958855447 / 9007199254740992)"
proof -
  have "roundToDouble False (2251799813685248 / 2476979795053773) =
          Fin (if False then - (of_int 8188362958855447 * pow2 (- 1 - 52))
               else of_int 8188362958855447 * pow2 (- 1 - 52))"
    by (rule roundToDouble_evalI) (simp_all add: pow2_def)
  then show ?thesis by (simp add: js_div_def pow2_def)
qed

lemma increase_default:
  "js_mul (Fin 10000) (Fin (2476979795053773 / 2251799813685248)) = Fin 11000"
proof -
  have "roundToDouble False (10000 * (2476979795053773 / 2251799813685248)) =
          Fin (if False then - (of_int 6047313952768000 * pow2 (13 - 52))
               else of_int 6047313952768000 * pow2 (13 - 52))"
    by (rule roundToDouble_evalI) (simp_all add: pow2_def)
  then show ?thesis by (simp add: js_mul_def pow2_def)
qed

lemma decrease_default:
  "js_mul (Fin 10000) (Fin (8188362958855447 / 9007199254740992)) =
     Fin (4997780126254545 / 549755813888)"
proof -
  have "roundToDouble False (10000 * (8188362958855447 / 9007199254740992)) =
          Fin (if False then - (of_int 4997780126254545 * pow2 (13 - 52))
               else of_int 4997780126254545 * pow2 (13 - 52))"
    by (rule roundToDouble_evalI) (simp_all add: pow2_def)
  then show ?thesis by (simp add: js_mul_def pow2_def)
qed

section \<open>Adaptive pacing\<close>

lemma getBlockPause_adaptBlockPause:
  "getBlockPause (adaptBlockPause e operation s) =
     Math_max (Math_min (js_mul (getBlockPause s) (factorOf e operation))
                 (BLOCK_PAUSE_UPPER_LIMIT e))
       (BLOCK_PAUSE_LOWER_LIMIT e)"
  by (simp add: adaptBlockPause_def factorOf_def Let_def)

lemma noEnv_increase:
  assumes "getBlockPause s = Fin 10000"
  shows "getBlockPause (adaptBlockPause noEnv increase s) = Fin 11000"
  by (simp add: getBlockPause_adaptBlockPause factorOf_def noEnv_limits assms increase_default
        Math_min_def Math_max_def js_lt_def)

lemma noEnv_decrease:
  assumes "getBlockPause s = Fin 10000"
  shows "getBlockPause (adaptBlockPause noEnv decrease s) = Fin (4997780126254545 / 549755813888)"
  by (simp add: getBlockPause_adaptBlockPause factorOf_def noEnv_limits assms reciprocal_default
        decrease_default Math_min_def Math_max_def js_lt_def)

lemma js_le_NaN [simp]: "js_le NaN x = False" "js_le x NaN = False"
  by (simp_all add: js_le_def)

lemma Math_min_bound:
  assumes "x \<noteq> NaN" and "u \<noteq> NaN"
  shows "Math_min x u \<noteq> NaN \<and> js_le (Math_min x u) u"
  using assms by (cases x; cases u) (auto simp add: Math_min_def js_lt_def js_le_def)

lemma Math_max_bounds:
  assumes "p \<noteq> NaN" and "js_le p u" and "js_le l u"
  shows "js_le l (Math_max p l) \<and> js_le (Math_max p l) u"
proof -
  from assms(3) have l: "l \<noteq> NaN" by (cases l) simp_all
  have 1: "js_le l (Math_max p l)"
    using assms(1) l by (cases p; cases l) (auto simp add: Math_max_def js_lt_def js_le_def)
  have "Math_max p l = p \<or> Math_max p l = l"
    by (simp add: Math_max_def)
  with assms(2,3) have 2: "js_le (Math_max p l) u" by auto
  from 1 2 show ?thesis ..
qed

lemma js_mul_NaN_iff:
  "js_mul x y = NaN \<longleftrightarrow>
     x = NaN \<or> y = NaN \<or> (isInfinite x \<and> isZero y) \<or> (isZero x \<and> isInfinite y)"
  by (simp add: js_mul_def signedInf_def)

lemma roundHalfEven_le: "of_int (roundHalfEven q) \<le> q + 1"
proof -
  have "roundHalfEven q \<le> \<lfloor>q\<rfloor> + 1" by (simp add: roundHalfEven_def Let_def)
  then have "(of_int (roundHalfEven q) :: rat) \<le> of_int (\<lfloor>q\<rfloor> + 1)" by (simp only: of_int_le_iff)
  also have "\<dots> \<le> q + 1" by simp
  finally show ?thesis .
qed

lemma roundMagnitude_nonneg:
  assumes "0 < a"
  shows "0 \<le> roundMagnitude a"
proof -
  define u where "u = max (binade a) (- 1022) - 52"
  from assms have "0 \<le> a / pow2 u" by simp
  then have "0 \<le> \<lfloor>a / pow2 u\<rfloor>" by simp
  from order_trans [OF this floor_le_roundHalfEven] have "0 \<le> roundHalfEven (a / pow2 u)" .
  then show ?thesis by (simp add: roundMagnitude_def Let_def u_def)
qed

lemma roundToDouble_Fin_bound:
  assumes "0 \<le> a" and "roundToDouble negative a = Fin y"
  shows "\<bar>y\<bar> < pow2 1024"
proof (cases "a = 0")
  case True
  with assms(2) have "y = 0" by (simp add: roundToDouble_def signedZero_def split: if_splits)
  then show ?thesis by simp
next
  case False
  with assms(1) have "0 < a" by simp
  from roundMagnitude_nonneg [OF this] have n: "0 \<le> roundMagnitude a" .
  from assms(2) False have "\<not> pow2 1024 \<le> roundMagnitude a"
    by (simp add: roundToDouble_def Let_def signedInf_def split: if_splits)
  moreover from assms(2) False have "\<bar>y\<bar> = \<bar>roundMagnitude a\<bar>"
    by (auto simp add: roundToDouble_def Let_def signedInf_def signedZero_def split: if_splits)
  ultimately show ?thesis using n by simp
qed

lemma radixValue_nonneg: "0 \<le> radixValue R Z"
proof -
  have "0 \<le> a \<Longrightarrow>
        0 \<le> foldl (\<lambda>acc c. acc * int R + int (case digitValue c of None \<Rightarrow> 0 | Some d \<Rightarrow> d)) a Z"
    for a
    by (induction Z arbitrary: a) simp_all
  then show ?thesis by (simp add: radixValue_def)
qed

lemma parseInt_Fin_bound:
  assumes "parseInt t = Fin y"
  shows "\<bar>y\<bar> < pow2 1024"
proof -
  obtain negative S1 where 1: "stripSign (dropWhile isWhiteSpace t) = (negative, S1)"
    by (cases "stripSign (dropWhile isWhiteSpace t)")
  obtain R S2 where 2: "stripPrefix S1 = (R, S2)" by (cases "stripPrefix S1")
  from assms have
    "roundToDouble negative (of_int (radixValue R (takeWhile (isRadixDigit R) S2))) = Fin y"
    by (simp add: parseInt_def 1 2 Let_def split: if_splits)
  moreover have "(0::rat) \<le> of_int (radixValue R (takeWhile (isRadixDigit R) S2))"
    using radixValue_nonneg by simp
  ultimately show ?thesis by (rule roundToDouble_Fin_bound [rotated])
qed

lemma BLOCK_PAUSE_FACTOR_bound:
  assumes "BLOCK_PAUSE_FACTOR e = Fin f"
  shows "\<bar>f\<bar> < pow2 1024"
proof (cases "truthy (parseInt (case e ''BLOCK_PAUSE_FACTOR'' of None \<Rightarrow> [] | Some t \<Rightarrow> t))")
  case True
  with assms have "parseInt (case e ''BLOCK_PAUSE_FACTOR'' of None \<Rightarrow> [] | Some t \<Rightarrow> t) = Fin f"
    by (simp add: BLOCK_PAUSE_FACTOR_def envNumber_def Let_def)
  then show ?thesis by (rule parseInt_Fin_bound)
next
  case False
  with assms have "f = 2476979795053773 / 2251799813685248"
    by (simp add: BLOCK_PAUSE_FACTOR_def envNumber_def Let_def double_11_10)
  then show ?thesis by (simp add: pow2_def)
qed

lemma reciprocal_finite:
  assumes "1 < f" and "f < pow2 1024"
  shows "\<exists>g. js_div (Fin 1) (Fin f) = Fin g \<and> g \<noteq> 0"
proof -
  define a where "a = 1 / f"
  from assms(1) have a: "0 < a" "a < 1" by (simp_all add: a_def)
  define u where "u = max (binade a) (- 1022) - 52"
  define k where "k = roundHalfEven (a / pow2 u)"
  have y: "roundMagnitude a = of_int k * pow2 u"
    by (simp add: roundMagnitude_def Let_def u_def k_def)
  have "pow2 (binade a) < pow2 0"
    using binade_bounds(1) [OF a(1)] a(2) by (simp add: pow2_def)
  then have b: "binade a < 0" by simp
  then have u0: "u < 0" by (simp add: u_def)
  have "1 \<le> a / pow2 u"
  proof (cases "- 1022 \<le> binade a")
    case True
    then have "u = binade a - 52" by (simp add: u_def)
    then have "pow2 52 = pow2 (binade a) / pow2 u" by (simp add: pow2_diff [symmetric])
    also have "\<dots> \<le> a / pow2 u"
      using binade_bounds(1) [OF a(1)] by (intro divide_right_mono) simp_all
    finally have "pow2 52 \<le> a / pow2 u" .
    moreover have "(1::rat) \<le> pow2 52" by (simp add: pow2_def)
    ultimately show ?thesis by linarith
  next
    case False
    then have u: "u = - 1074" by (simp add: u_def)
    from assms have "pow2 (- 1024) < a"
      by (simp add: a_def pow2_def power_int_minus field_simps)
    then have "pow2 (- 1024) / pow2 u < a / pow2 u"
      by (intro divide_strict_right_mono) simp_all
    moreover have "pow2 (- 1024) / pow2 u = pow2 50" by (simp add: u pow2_diff [symmetric])
    moreover have "(1::rat) \<le> pow2 50" by (simp add: pow2_def)
    ultimately show ?thesis by linarith
  qed
  then have "1 \<le> \<lfloor>a / pow2 u\<rfloor>" by simp
  from order_trans [OF this floor_le_roundHalfEven] have k1: "1 \<le> k" by (simp add: k_def)
  then have nz: "(of_int k :: rat) * pow2 u \<noteq> 0" by simp
  have "(of_int k :: rat) \<le> a / pow2 u + 1" unfolding k_def by (rule roundHalfEven_le)
  then have "of_int k * pow2 u \<le> (a / pow2 u + 1) * pow2 u"
    by (simp only: mult_le_cancel_right_pos pow2_pos)
  also have "\<dots> = a + pow2 u" by (simp add: distrib_right)
  also have "pow2 u < pow2 0" using u0 by simp
  finally have "of_int k * pow2 u < a + pow2 0" by simp
  also have "\<dots> < 2" using a(2) by (simp add: pow2_def)
  also have "(2::rat) \<le> pow2 1024" using pow2_le_iff [of 1 1024] by (simp add: pow2_def)
  finally have small: "\<not> pow2 1024 \<le> of_int k * pow2 u" by simp
  from a(1) have "a \<noteq> 0" by simp
  with small nz have "roundToDouble False a = Fin (of_int k * pow2 u)"
    by (simp add: roundToDouble_def Let_def y)
  moreover from assms(1) have "js_div (Fin 1) (Fin f) = roundToDouble False a"
    by (simp add: js_div_def a_def)
  ultimately show ?thesis using nz by simp
qed

lemma factorOf_finite:
  assumes "moduleLoads e" and "\<not> isInfinite (BLOCK_PAUSE_FACTOR e)"
  shows "\<exists>g. factorOf e operation = Fin g \<and> g \<noteq> 0"
proof -
  from assms obtain f where f: "BLOCK_PAUSE_FACTOR e = Fin f" "1 < f"
    by (cases "BLOCK_PAUSE_FACTOR e") (simp_all add: moduleLoads_def js_lt_def)
  from BLOCK_PAUSE_FACTOR_bound [OF f(1)] have "f < pow2 1024" by simp
  from reciprocal_finite [OF f(2) this] f show ?thesis
    by (cases operation) (auto simp add: factorOf_def)
qed

text \<open>
  Claim C7, as stated: after every update of \<open>adaptBlockPause\<close> the pause lies in
  \<open>[BLOCK_PAUSE_LOWER_LIMIT, BLOCK_PAUSE_UPPER_LIMIT]\<close>.  It fails in two ways.  The
  module accepts an environment whose floor is above its ceiling (only the factor is
  asserted): with \<open>BLOCK_PAUSE_LOWER_LIMIT=40000\<close> and the default ceiling \<open>30000\<close> the
  first update of a new monitor gives \<open>40000\<close>.  And it accepts a factor that is
  \<open>Infinity\<close>: with \<open>BLOCK_PAUSE_FACTOR\<close> and \<open>GET_BLOCK_PAUSE\<close> of 310 digits both parse
  to \<open>Infinity\<close>, the assertion holds, the factor of a decrease is \<open>1 / Infinity = 0\<close>, the
  product \<open>Infinity * 0\<close> is \<open>NaN\<close>, and \<open>Math.min\<close> and \<open>Math.max\<close> keep it: the pause is
  \<open>NaN\<close>, which is in no interval, although the limits are the default ones.
\<close>

theorem C7_pause_outside_limits:
  "moduleLoads floorAboveCeiling \<and>
   getBlockPause (adaptBlockPause floorAboveCeiling increase
     (newChainMonitor floorAboveCeiling exampleChain emptyRepository)) = Fin 40000 \<and>
   BLOCK_PAUSE_UPPER_LIMIT floorAboveCeiling = Fin 30000 \<and>
   \<not> js_le (getBlockPause (adaptBlockPause floorAboveCeiling increase
          (newChainMonitor floorAboveCeiling exampleChain emptyRepository)))
        (BLOCK_PAUSE_UPPER_LIMIT floorAboveCeiling) \<and>
   moduleLoads hugeNumbers \<and>
   js_le (BLOCK_PAUSE_LOWER_LIMIT hugeNumbers) (BLOCK_PAUSE_UPPER_LIMIT hugeNumbers) \<and>
   getBlockPause (newChainMonitor hugeNumbers exampleChain emptyRepository) = PosInf \<and>
   getBlockPause (adaptBlockPause hugeNumbers decrease
     (newChainMonitor hugeNumbers exampleChain emptyRepository)) = NaN \<and>
   \<not> js_le (getBlockPause (adaptBlockPause hugeNumbers decrease
          (newChainMonitor hugeNumbers exampleChain emptyRepository)))
        (BLOCK_PAUSE_UPPER_LIMIT hugeNumbers)"
proof -
  have p: "getBlockPause (newChainMonitor floorAboveCeiling exampleChain emptyRepository)
             = Fin 10000"
    by (simp add: newChainMonitor_def floorAboveCeiling_def env_defs default_numbers)
  have a: "getBlockPause (adaptBlockPause floorAboveCeiling increase
             (newChainMonitor floorAboveCeiling exampleChain emptyRepository)) = Fin 40000"
    by (simp add: getBlockPause_adaptBlockPause factorOf_def floorAboveCeiling_limits p
          increase_default Math_min_def Math_max_def js_lt_def)
  have m: "moduleLoads floorAboveCeiling"
    by (simp add: moduleLoads_def floorAboveCeiling_limits js_lt_def)
  have q: "getBlockPause (newChainMonitor hugeNumbers exampleChain emptyRepository) = PosInf"
    by (simp add: newChainMonitor_def hugeNumbers_def env_defs parseInt_huge)
  have b: "getBlockPause (adaptBlockPause hugeNumbers decrease
             (newChainMonitor hugeNumbers exampleChain emptyRepository)) = NaN"
    by (simp add: getBlockPause_adaptBlockPause factorOf_def hugeNumbers_limits q
          js_div_def js_mul_def signedZero_def Math_min_def Math_max_def)
  have n: "moduleLoads hugeNumbers"
    by (simp add: moduleLoads_def hugeNumbers_limits js_lt_def)
  show ?thesis
    by (simp add: a b m n q floorAboveCeiling_limits hugeNumbers_limits js_le_def)
qed

text \<open>
  Claim C7, amended: when the floor is not above the ceiling, the factor is finite (the
  assertion of the module makes it greater than 1) and the pause is not \<open>NaN\<close>, the pause
  after an update of \<open>adaptBlockPause\<close>, of either kind, lies between the two limits, in
  the order of \<^verbatim>\<open><=\<close> on doubles; so it is again not \<open>NaN\<close>.  A new monitor's pause is
  not \<open>NaN\<close>.
\<close>

theorem C7_adaptBlockPause_in_range:
  assumes "js_le (BLOCK_PAUSE_LOWER_LIMIT e) (BLOCK_PAUSE_UPPER_LIMIT e)"
    and "moduleLoads e"
    and "\<not> isInfinite (BLOCK_PAUSE_FACTOR e)"
    and "getBlockPause s \<noteq> NaN"
  shows "js_le (BLOCK_PAUSE_LOWER_LIMIT e) (getBlockPause (adaptBlockPause e operation s)) \<and>
         js_le (getBlockPause (adaptBlockPause e operation s)) (BLOCK_PAUSE_UPPER_LIMIT e) \<and>
         getBlockPause (adaptBlockPause e operation s) \<noteq> NaN \<and>
         getBlockPause (newChainMonitor e chain repository) \<noteq> NaN"
proof -
  from factorOf_finite [OF assms(2,3)] obtain g where
    g: "factorOf e operation = Fin g" "g \<noteq> 0" by blast
  define p where "p = js_mul (getBlockPause s) (factorOf e operation)"
  have p: "p \<noteq> NaN" using assms(4) g by (simp add: p_def js_mul_NaN_iff)
  from assms(1) have u: "BLOCK_PAUSE_UPPER_LIMIT e \<noteq> NaN"
    by (cases "BLOCK_PAUSE_UPPER_LIMIT e") simp_all
  from Math_min_bound [OF p u] have
    m: "Math_min p (BLOCK_PAUSE_UPPER_LIMIT e) \<noteq> NaN"
       "js_le (Math_min p (BLOCK_PAUSE_UPPER_LIMIT e)) (BLOCK_PAUSE_UPPER_LIMIT e)"
    by simp_all
  from Math_max_bounds [OF m assms(1)] have
    r: "js_le (BLOCK_PAUSE_LOWER_LIMIT e) (getBlockPause (adaptBlockPause e operation s))"
       "js_le (getBlockPause (adaptBlockPause e operation s)) (BLOCK_PAUSE_UPPER_LIMIT e)"
    by (simp_all add: getBlockPause_adaptBlockPause p_def)
  from r(1) have "getBlockPause (adaptBlockPause e operation s) \<noteq> NaN"
    by (cases "getBlockPause (adaptBlockPause e operation s)") simp_all
  moreover have "getBlockPause (newChainMonitor e chain repository) \<noteq> NaN"
    by (auto simp add: newChainMonitor_def envNumber_def Let_def truthy_def default_numbers)
  ultimately show ?thesis using r by simp
qed

theorem C7_adaptBlockPause_in_range_witness:
  "js_le (BLOCK_PAUSE_LOWER_LIMIT noEnv) (BLOCK_PAUSE_UPPER_LIMIT noEnv) \<and>
   moduleLoads noEnv \<and>
   \<not> isInfinite (BLOCK_PAUSE_FACTOR noEnv) \<and>
   getBlockPause (newChainMonitor noEnv exampleChain emptyRepository) = Fin 10000 \<and>
   getBlockPause (adaptBlockPause noEnv decrease
     (newChainMonitor noEnv exampleChain emptyRepository))
     = Fin (4997780126254545 / 549755813888) \<and>
   js_le (BLOCK_PAUSE_LOWER_LIMIT noEnv) (getBlockPause (adaptBlockPause noEnv decrease
     (newChainMonitor noEnv exampleChain emptyRepository))) \<and>
   js_le (getBlockPause (adaptBlockPause noEnv decrease
     (newChainMonitor noEnv exampleChain emptyRepository))) (BLOCK_PAUSE_UPPER_LIMIT noEnv)"
proof -
  have h: "js_le (BLOCK_PAUSE_LOWER_LIMIT noEnv) (BLOCK_PAUSE_UPPER_LIMIT noEnv)"
    by (simp add: noEnv_limits js_le_def)
  have m: "moduleLoads noEnv" by (simp add: moduleLoads_def noEnv_limits js_lt_def)
  have i: "\<not> isInfinite (BLOCK_PAUSE_FACTOR noEnv)" by (simp add: noEnv_limits)
  have p: "getBlockPause (newChainMonitor noEnv exampleChain emptyRepository) = Fin 10000"
    by (simp add: newChainMonitor_def noEnv_def env_defs default_numbers)
  then have n: "getBlockPause (newChainMonitor noEnv exampleChain emptyRepository) \<noteq> NaN"
    by simp
  from C7_adaptBlockPause_in_range [OF h m i n, of decrease] h m i p noEnv_decrease [OF p]
  show ?thesis by simp
qed

section \<open>Starting\<close>

lemma removeAt_length_append [simp]: "removeAt (length xs) (xs @ [x]) = xs"
  by (simp add: removeAt_def)

lemma trigger_fields [simp]:
  "sourcifyChain (trigger ev s) = sourcifyChain s"
  "provider (trigger ev s) = provider s"
  "repositoryService (trigger ev s) = repositoryService s"
  "running (trigger ev s) = running s"
  "getBytecodeRetryPause (trigger ev s) = getBytecodeRetryPause s"
  "getBlockPause (trigger ev s) = getBlockPause s"
  "initialGetBytecodeTries (trigger ev s) = initialGetBytecodeTries s"
  "timers (trigger ev s) = timers s"
  "pending (trigger ev s) = pending s"
  "effects (trigger ev s) = effects s @ [ev]"
  "chainIdString (trigger ev s) = chainIdString s"
  by (simp_all add: trigger_def chainIdString_def)

lemma settle_probe_rejected:
  "settle e l (startLoop s (u # rest) raw found) (length (pending s)) (BlockNumberIs (Inl m)) =
     Inr (startLoop (s\<lparr>effects := effects s @ [rpc_getBlockNumber (newProvider (sourcifyChain s) u),
                                                 logger_info u m]\<rparr>) rest raw found)"
  by (simp add: settle_def startLoop_def Let_def getBlockNumber_settled_def trigger_def
      split: list.split)

lemma run_probeFails:
  "length errs = length fs \<Longrightarrow>
   run e l (probeFails (length (pending s)) errs @ evs) (startLoop s (fs @ rest) raw found) =
   run e l evs
     (startLoop (s\<lparr>effects := effects s @ failedProbes (sourcifyChain s) fs errs\<rparr>) rest raw found)"
proof (induction fs arbitrary: s errs)
  case Nil
  then show ?case by (simp add: probeFails_def)
next
  case (Cons u fs)
  then obtain m ms where errs: "errs = m # ms" and len: "length ms = length fs"
    by (cases errs) auto
  have "run e l (probeFails (length (pending s)) errs @ evs) (startLoop s ((u # fs) @ rest) raw found)
      = run e l (probeFails (length (pending s)) ms @ evs)
          (startLoop (s\<lparr>effects := effects s @ [rpc_getBlockNumber (newProvider (sourcifyChain s) u),
                                                 logger_info u m]\<rparr>) (fs @ rest) raw found)"
    using settle_probe_rejected [of e l s u "fs @ rest" raw found m]
    by (simp add: errs probeFails_def step_def)
  also have "\<dots> = run e l evs
     (startLoop (s\<lparr>effects := effects s @ failedProbes (sourcifyChain s) (u # fs) errs\<rparr>) rest raw found)"
    using Cons.IH [OF len, of "s\<lparr>effects := effects s @ [rpc_getBlockNumber (newProvider (sourcifyChain s) u),
                                                 logger_info u m]\<rparr>"]
    by (simp add: errs)
  finally show ?case .
qed


lemma run_CallStart:
  "run e l (CallStart # evs) s =
     run e l evs (startLoop (s\<lparr>running := True\<rparr>) (rpc (sourcifyChain s))
                    (e (''MONITOR_START_'' @ chainIdString s)) False)"
  by (simp add: step_def start_def Let_def chainIdString_def)

lemma start_all_fail:
  assumes "length errs = length (rpc (sourcifyChain s))"
  shows "run e l (CallStart # probeFails (length (pending s)) errs) s =
     Inr (s\<lparr>running := True,
            effects := effects s @ failedProbes (sourcifyChain s) (rpc (sourcifyChain s)) errs
              @ [Monitor_Error_CantStart (chainIdString s) ''Couldn't find a working RPC node.'']\<rparr>)"
proof -
  let ?s1 = "s\<lparr>running := True\<rparr>"
  let ?raw = "e (''MONITOR_START_'' @ chainIdString s)"
  have "run e l (probeFails (length (pending ?s1)) errs @ [])
          (startLoop ?s1 (rpc (sourcifyChain s) @ []) ?raw False)
      = run e l [] (startLoop (?s1\<lparr>effects := effects ?s1 @ failedProbes (sourcifyChain ?s1)
            (rpc (sourcifyChain s)) errs\<rparr>) [] ?raw False)"
    using assms by (intro run_probeFails) simp
  then have "run e l (CallStart # probeFails (length (pending s)) errs) s
      = Inr (startLoop (?s1\<lparr>effects := effects ?s1 @ failedProbes (sourcifyChain ?s1)
            (rpc (sourcifyChain s)) errs\<rparr>) [] ?raw False)"
    by (subst run_CallStart) simp
  then show ?thesis
    by (simp add: startLoop_def trigger_def chainIdString_def)
qed

lemma start_first_success:
  assumes "rpc (sourcifyChain s) = fs @ u # rest" and "length errs = length fs"
  shows "run e l (CallStart # probeFails (length (pending s)) errs
                    @ [Settles (length (pending s)) (BlockNumberIs (Inr n))]) s =
     (let p = newProvider (sourcifyChain s) u;
          startBlock = (case e (''MONITOR_START_'' @ chainIdString s) of
                          Some raw \<Rightarrow> parseInt raw
                        | None \<Rightarrow> n)
      in Inr (s\<lparr>provider := Some p,
                running := True,
                pending := pending s @ [AwaitGetBlock startBlock],
                effects := effects s @ failedProbes (sourcifyChain s) fs errs
                  @ [rpc_getBlockNumber p,
                     Monitor_Started (chainIdString s) u n startBlock,
                     rpc_getBlock p startBlock]\<rparr>))"
proof -
  let ?s1 = "s\<lparr>running := True\<rparr>"
  let ?raw = "e (''MONITOR_START_'' @ chainIdString s)"
  let ?k = "length (pending s)"
  let ?s2 = "?s1\<lparr>effects := effects ?s1 @ failedProbes (sourcifyChain ?s1) fs errs\<rparr>"
  have "run e l (probeFails (length (pending ?s1)) errs @ [Settles ?k (BlockNumberIs (Inr n))])
          (startLoop ?s1 (fs @ u # rest) ?raw False)
      = run e l [Settles ?k (BlockNumberIs (Inr n))] (startLoop ?s2 (u # rest) ?raw False)"
    using assms(2) by (intro run_probeFails) simp
  then have "run e l (CallStart # probeFails ?k errs @ [Settles ?k (BlockNumberIs (Inr n))]) s
      = run e l [Settles ?k (BlockNumberIs (Inr n))] (startLoop ?s2 (u # rest) ?raw False)"
    by (subst run_CallStart) (simp add: assms(1))
  then show ?thesis
    by (simp add: step_def startLoop_def settle_def Let_def
        getBlockNumber_settled_def processBlock_def trigger_def chainIdString_def)
qed


lemma newChainMonitor_fields [simp]:
  "sourcifyChain (newChainMonitor e c r) = c"
  "provider (newChainMonitor e c r) = None"
  "repositoryService (newChainMonitor e c r) = r"
  "running (newChainMonitor e c r) = False"
  "timers (newChainMonitor e c r) = []"
  "pending (newChainMonitor e c r) = []"
  "effects (newChainMonitor e c r) = []"
  "chainIdString (newChainMonitor e c r) = toString (chainId c)"
  by (simp_all add: newChainMonitor_def chainIdString_def)

lemma exampleChain_fields [simp]:
  "chainId exampleChain = 5"
  "name exampleChain = ''Goerli''"
  "rpc exampleChain = [''http://a'', ''wss://b'']"
  by (simp_all add: exampleChain_def)

lemma toString_5 [simp]: "toString 5 = ''5''"
  by (simp add: toString_def natToString.simps)

lemma exampleProviders [simp]:
  "newProvider exampleChain ''http://a'' = JsonRpcProvider ''http://a'' ''Goerli'' 5"
  "newProvider exampleChain ''wss://b'' = WebSocketProvider ''wss://b'' ''Goerli'' 5"
  by (simp_all add: newProvider_def startsWith_def)

lemma noEnv_MONITOR_START_5 [simp]: "noEnv ''MONITOR_START_5'' = None"
  by (simp add: noEnv_def)

lemma startNotANumber_MONITOR_START_5 [simp]:
  "startNotANumber ''MONITOR_START_5'' = Some (ascii ''latest'')"
  by (simp add: startNotANumber_def)

lemma startAfterNoBreakSpace_MONITOR_START_5 [simp]:
  "startAfterNoBreakSpace ''MONITOR_START_5'' = Some (160 # ascii ''42'')"
  by (simp add: startAfterNoBreakSpace_def)

lemma parseInt_latest [simp]: "parseInt (ascii ''latest'') = NaN"
  by (simp add: parse_defs)

lemma parseInt_42 [simp]: "parseInt (160 # ascii ''42'') = Fin 42"
  using roundToDouble_of_int [of 42 False] by (simp add: parse_defs)

lemma startInHex_MONITOR_START_5 [simp]:
  "startInHex ''MONITOR_START_5'' = Some (ascii ''0x1F4'')"
  by (simp add: startInHex_def)

lemma parseInt_hex [simp]: "parseInt (ascii ''0x1F4'') = Fin 500"
  using roundToDouble_of_int [of 500 False] by (simp add: parse_defs)

text \<open>
  Claim C4: \<open>start\<close> probes the endpoints in the listed order.  When the endpoints
  \<open>fs\<close> fail (with the messages \<open>errs\<close>) and the next one, \<open>u\<close>, answers \<open>n\<close>, the run
  returns normally; what was observed is, for each failed endpoint in order, its probe and
  its log line, then the probe of \<open>u\<close>, \<open>Monitor.Started\<close> and the \<open>getBlock\<close> request for
  the start block on the provider of \<open>u\<close>; that provider is retained; the start block is
  \<open>parseInt\<close> of the override when the variable is set and \<open>n\<close> otherwise; no endpoint
  after \<open>u\<close> is tried.  When all endpoints fail, the run returns normally too, the last
  event is \<open>Monitor.Error.CantStart\<close>, and no request or timer is added.
\<close>

theorem C4_start_probes_in_order:
  assumes "length errs = length fs"
  shows
    "(rpc (sourcifyChain s) = fs @ u # rest \<longrightarrow>
        run e l (CallStart # probeFails (length (pending s)) errs
                   @ [Settles (length (pending s)) (BlockNumberIs (Inr n))]) s =
        (let p = newProvider (sourcifyChain s) u;
             startBlock = (case e (''MONITOR_START_'' @ chainIdString s) of
                             Some raw \<Rightarrow> parseInt raw
                           | None \<Rightarrow> n)
         in Inr (s\<lparr>provider := Some p,
                   running := True,
                   pending := pending s @ [AwaitGetBlock startBlock],
                   effects := effects s @ failedProbes (sourcifyChain s) fs errs
                     @ [rpc_getBlockNumber p,
                        Monitor_Started (chainIdString s) u n startBlock,
                        rpc_getBlock p startBlock]\<rparr>))) \<and>
     (rpc (sourcifyChain s) = fs \<longrightarrow>
        run e l (CallStart # probeFails (length (pending s)) errs) s =
        Inr (s\<lparr>running := True,
               effects := effects s @ failedProbes (sourcifyChain s) fs errs
                 @ [Monitor_Error_CantStart (chainIdString s)
                      ''Couldn't find a working RPC node.'']\<rparr>))"
  using assms start_first_success [of s fs u rest errs e l n] start_all_fail [of errs s e l]
  by auto

theorem C4_start_probes_in_order_witness:
  "run noEnv exampleLib
     [CallStart, Settles 0 (BlockNumberIs (Inl ''ECONNREFUSED'')),
      Settles 0 (BlockNumberIs (Inr (Fin 100)))]
     (newChainMonitor noEnv exampleChain emptyRepository) =
   Inr ((newChainMonitor noEnv exampleChain emptyRepository)
          \<lparr>provider := Some (WebSocketProvider ''wss://b'' ''Goerli'' 5),
           running := True,
           pending := [AwaitGetBlock (Fin 100)],
           effects :=
             [rpc_getBlockNumber (JsonRpcProvider ''http://a'' ''Goerli'' 5),
              logger_info ''http://a'' ''ECONNREFUSED'',
              rpc_getBlockNumber (WebSocketProvider ''wss://b'' ''Goerli'' 5),
              Monitor_Started ''5'' ''wss://b'' (Fin 100) (Fin 100),
              rpc_getBlock (WebSocketProvider ''wss://b'' ''Goerli'' 5) (Fin 100)]\<rparr>) \<and>
   run noEnv exampleLib
     [CallStart, Settles 0 (BlockNumberIs (Inl ''ECONNREFUSED'')),
      Settles 0 (BlockNumberIs (Inl ''ETIMEDOUT''))]
     (newChainMonitor noEnv exampleChain emptyRepository) =
   Inr ((newChainMonitor noEnv exampleChain emptyRepository)
          \<lparr>running := True,
           effects :=
             [rpc_getBlockNumber (JsonRpcProvider ''http://a'' ''Goerli'' 5),
              logger_info ''http://a'' ''ECONNREFUSED'',
              rpc_getBlockNumber (WebSocketProvider ''wss://b'' ''Goerli'' 5),
              logger_info ''wss://b'' ''ETIMEDOUT'',
              Monitor_Error_CantStart ''5'' ''Couldn't find a working RPC node.'']\<rparr>) \<and>
   run startInHex exampleLib
     [CallStart, Settles 0 (BlockNumberIs (Inl ''ECONNREFUSED'')),
      Settles 0 (BlockNumberIs (Inr (Fin 100)))]
     (newChainMonitor startInHex exampleChain emptyRepository) =
   Inr ((newChainMonitor startInHex exampleChain emptyRepository)
          \<lparr>provider := Some (WebSocketProvider ''wss://b'' ''Goerli'' 5),
           running := True,
           pending := [AwaitGetBlock (Fin 500)],
           effects :=
             [rpc_getBlockNumber (JsonRpcProvider ''http://a'' ''Goerli'' 5),
              logger_info ''http://a'' ''ECONNREFUSED'',
              rpc_getBlockNumber (WebSocketProvider ''wss://b'' ''Goerli'' 5),
              Monitor_Started ''5'' ''wss://b'' (Fin 100) (Fin 500),
              rpc_getBlock (WebSocketProvider ''wss://b'' ''Goerli'' 5) (Fin 500)]\<rparr>)"
proof -
  let ?s = "newChainMonitor noEnv exampleChain emptyRepository"
  let ?t = "newChainMonitor startInHex exampleChain emptyRepository"
  have a: "length [''ECONNREFUSED''] = length [''http://a'']" by simp
  have b: "length [''ECONNREFUSED'', ''ETIMEDOUT''] = length [''http://a'', ''wss://b'']" by simp
  from C4_start_probes_in_order [OF a, of ?s "''wss://b''" "[]" noEnv exampleLib "Fin 100"]
       C4_start_probes_in_order [OF b, of ?s "''wss://b''" "[]" noEnv exampleLib "Fin 100"]
       C4_start_probes_in_order [OF a, of ?t "''wss://b''" "[]" startInHex exampleLib "Fin 100"]
  show ?thesis by (simp add: probeFails_def Let_def)
qed








section \<open>Evaluation of runs\<close>

lemma small_numbers:
  "decrement (Fin 3) = Fin 2" "decrement (Fin 2) = Fin 1" "decrement (Fin 1) = Fin 0"
  "increment (Fin 100) = Fin 101" "increment (Fin 500) = Fin 501"
  using decrement_of_int [of 3] decrement_of_int [of 2] decrement_of_int [of 1]
    increment_of_int [of 100] increment_of_int [of 500]
  by simp_all

lemmas run_defs =
  step_def start_def startLoop_def stop_def fire_def settle_def removeAt_def
  getBlockNumber_settled_def getBlock_settled_def getCode_settled_def
  processBlock_def processBytecode_def mySetTimeout_def trigger_def
  adaptBlockPause_def isVerified_def chainIdString_def createsContract_def
  js_le_def js_lt_def Math_min_def Math_max_def small_numbers
  reciprocal_default increase_default decrease_default

lemma fresh_noEnv:
  "newChainMonitor noEnv exampleChain emptyRepository =
     \<lparr>sourcifyChain = exampleChain, provider = None, repositoryService = emptyRepository,
      running = False, getBytecodeRetryPause = Fin 5000, getBlockPause = Fin 10000,
      initialGetBytecodeTries = Fin 3, timers = [], pending = [], effects = []\<rparr>"
  by (simp add: newChainMonitor_def noEnv_def env_defs default_numbers)


lemma startedMonitor_eq:
  "startedMonitor r =
     \<lparr>sourcifyChain = exampleChain,
      provider = Some (JsonRpcProvider ''http://a'' ''Goerli'' 5),
      repositoryService = r,
      running = True, getBytecodeRetryPause = Fin 5000, getBlockPause = Fin 10000,
      initialGetBytecodeTries = Fin 3, timers = [], pending = [], effects = []\<rparr>"
  by (simp add: startedMonitor_def newChainMonitor_def noEnv_def env_defs default_numbers)

section \<open>Bytecode retrieval\<close>






section \<open>Stopping\<close>

text \<open>
  Claim C9, as stated: a second \<open>stop\<close> adds nothing to the first, in state or in what is
  observed.  It fails on what is observed: each call triggers \<open>Monitor.Stopped\<close>, and each
  call of the supervisor's \<open>stop\<close> calls \<open>stop\<close> of the source fetcher.
\<close>

theorem C9_second_stop_is_observed:
  "effects (stop (newChainMonitor noEnv exampleChain emptyRepository)) = [Monitor_Stopped ''5''] \<and>
   effects (stop (stop (newChainMonitor noEnv exampleChain emptyRepository))) =
     [Monitor_Stopped ''5'', Monitor_Stopped ''5''] \<and>
   stop (stop (newChainMonitor noEnv exampleChain emptyRepository)) \<noteq>
     stop (newChainMonitor noEnv exampleChain emptyRepository) \<and>
   sourceFetcherStops (Monitor_stop (newMonitor noEnv [] emptyRepository (Some [exampleChain]))) = 1 \<and>
   sourceFetcherStops
     (Monitor_stop (Monitor_stop (newMonitor noEnv [] emptyRepository (Some [exampleChain])))) = 2"
proof -
  let ?s = "newChainMonitor noEnv exampleChain emptyRepository"
  have one: "effects (stop ?s) = [Monitor_Stopped ''5'']"
    and two: "effects (stop (stop ?s)) = [Monitor_Stopped ''5'', Monitor_Stopped ''5'']"
    by (simp_all add: stop_def trigger_def chainIdString_def)
  from one two have "stop (stop ?s) \<noteq> stop ?s"
    by (metis list.inject not_Cons_self2)
  with one two show ?thesis
    by (simp add: Monitor_stop_def newMonitor_def)
qed

text \<open>
  Claim C9, amended: a second \<open>stop\<close> leaves the state of the monitor as the first left it
  (not running; provider, pauses, timers and calls in flight untouched) and adds one more
  \<open>Monitor.Stopped\<close> event; a second \<open>stop\<close> of the supervisor does this for every chain
  monitor and calls \<open>stop\<close> of the source fetcher once more.
\<close>

theorem C9_second_stop_only_repeats_the_event:
  "stop (stop s) = (stop s)\<lparr>effects := effects (stop s) @ [Monitor_Stopped (chainIdString s)]\<rparr> \<and>
   Monitor_stop (Monitor_stop m) =
     (Monitor_stop m)
       \<lparr>chainMonitors :=
          map (\<lambda>s. (stop s)\<lparr>effects := effects (stop s) @ [Monitor_Stopped (chainIdString s)]\<rparr>)
            (chainMonitors m),
        sourceFetcherStops := Suc (Suc (sourceFetcherStops m))\<rparr>"
  by (simp add: Monitor_stop_def stop_def trigger_def chainIdString_def)

section \<open>Contract creations in a block\<close>





section \<open>Steps\<close>

lemma removeAt_split:
  "i < length xs \<Longrightarrow> xs = take i xs @ xs ! i # drop (Suc i) xs"
  by (simp add: id_take_nth_drop)

lemma filter_removeAt:
  assumes "i < length xs"
  shows "length (filter P xs) = length (filter P (removeAt i xs)) + (if P (xs ! i) then 1 else 0)"
proof -
  have "length (filter P xs) = length (filter P (take i xs @ xs ! i # drop (Suc i) xs))"
    using removeAt_split [OF assms] by simp
  then show ?thesis by (simp add: removeAt_def)
qed

lemma sum_list_removeAt:
  assumes "i < length xs"
  shows "sum_list (map f xs) = sum_list (map f (removeAt i xs)) + (f (xs ! i) :: nat)"
proof -
  have "sum_list (map f xs) = sum_list (map f (take i xs @ xs ! i # drop (Suc i) xs))"
    using removeAt_split [OF assms] by simp
  then show ?thesis by (simp add: removeAt_def)
qed


lemma processBytecode_preserves:
  assumes "processBytecode s h a k = Inr s2"
  shows "timers s2 = timers s" "running s2 = running s" "provider s2 = provider s"
    "getBlockPause s2 = getBlockPause s"
    "filter isBlockFlight (pending s2) = filter isBlockFlight (pending s)"
  using assms by (auto simp add: processBytecode_def split: if_splits option.splits)

lemma processBytecode_throws:
  assumes "processBytecode s h a k = Inl err"
  shows "provider s = None"
  using assms by (auto simp add: processBytecode_def split: if_splits option.splits)

lemma processTransactions_preserves:
  "processTransactions l s txs = (r, s') \<Longrightarrow>
     timers s' = timers s \<and> running s' = running s \<and> provider s' = provider s \<and>
     getBlockPause s' = getBlockPause s \<and>
     filter isBlockFlight (pending s') = filter isBlockFlight (pending s) \<and>
     (provider s \<noteq> None \<longrightarrow> r = None)"
proof (induction txs arbitrary: s)
  case Nil
  then show ?case by simp
next
  case (Cons tx txs)
  let ?a = "getCreateAddress l tx"
  let ?sv = "trigger (emit_contract_already_verified (chainId (sourcifyChain s)) ?a)
               (trigger (Monitor_AlreadyVerified ?a (chainIdString s)) s)"
  let ?s1 = "trigger (Monitor_NewContract ?a (chainIdString s)) s"
  consider (skip) "\<not> createsContract tx"
    | (verified) "createsContract tx" "isVerified s ?a"
    | (new) "createsContract tx" "\<not> isVerified s ?a"
    by blast
  then show ?case
  proof cases
    case skip
    with Cons.prems have "processTransactions l s txs = (r, s')" by simp
    from Cons.IH [OF this] show ?thesis .
  next
    case verified
    with Cons.prems have "processTransactions l ?sv txs = (r, s')" by (simp add: Let_def)
    from Cons.IH [OF this] show ?thesis by simp
  next
    case new
    show ?thesis
    proof (cases "processBytecode ?s1 (tx_hash tx) ?a (initialGetBytecodeTries ?s1)")
      case (Inl err)
      with new Cons.prems have "r = Some err" "s' = ?s1" by (simp_all add: Let_def)
      with processBytecode_throws [OF Inl] show ?thesis by simp
    next
      case (Inr s2)
      with new Cons.prems have "processTransactions l s2 txs = (r, s')" by (simp add: Let_def)
      from Cons.IH [OF this] processBytecode_preserves [OF Inr] show ?thesis by simp
    qed
  qed
qed


lemma blockLoops_fire:
  assumes "fire s i = Inr s'"
  shows "blockLoops s' = blockLoops s"
proof -
  from assms have i: "i < length (timers s)"
    by (simp add: fire_def split: if_splits)
  let ?P = "\<lambda>t. isBlockCall (fst t)"
  note rm = filter_removeAt [OF i, of ?P]
  show ?thesis
  proof (cases "fst (timers s ! i)")
    case (CallProcessBlock n)
    with assms i rm show ?thesis
      by (auto simp add: fire_def Let_def processBlock_def blockLoops_def split: option.splits)
  next
    case (CallProcessBytecode h a k)
    with assms i rm show ?thesis
      by (auto simp add: fire_def Let_def processBytecode_def blockLoops_def
          split: option.splits if_splits)
  qed
qed

lemma blockLoops_startLoop:
  "blockLoops (startLoop s urls raw found) \<le> Suc (blockLoops s)"
  by (simp add: startLoop_def blockLoops_def Let_def split: list.split)

lemma blockLoops_start: "blockLoops (start e s) \<le> Suc (blockLoops s)"
  using blockLoops_startLoop [of "s\<lparr>running := True\<rparr>"]
  by (simp add: start_def Let_def blockLoops_def)

lemma blockLoops_stop: "blockLoops (stop s) = blockLoops s"
  by (simp add: stop_def blockLoops_def)

lemma blockLoops_trigger [simp]: "blockLoops (trigger ev s) = blockLoops s"
  by (simp add: blockLoops_def)

lemma blockLoops_getBlockNumber_settled:
  "blockLoops (getBlockNumber_settled l s url p rest raw found r) \<le> Suc (blockLoops s)"
proof (cases r)
  case (Inl msg)
  then show ?thesis
    using blockLoops_startLoop [of "trigger (logger_info url msg) s" rest raw found]
    by (simp add: getBlockNumber_settled_def)
next
  case (Inr n)
  then show ?thesis
    by (simp add: getBlockNumber_settled_def Let_def processBlock_def blockLoops_def)
qed

lemma blockLoops_mySetTimeout:
  "blockLoops (mySetTimeout s c t) \<le> Suc (blockLoops s)"
  by (simp add: mySetTimeout_def blockLoops_def)

lemma blockLoops_adaptBlockPause [simp]:
  "blockLoops (adaptBlockPause e operation s) = blockLoops s"
  by (simp add: adaptBlockPause_def blockLoops_def Let_def)

lemma blockLoops_processTransactions:
  "processTransactions l s txs = (r, s') \<Longrightarrow> blockLoops s' = blockLoops s"
  using processTransactions_preserves [of l s txs r s'] by (simp add: blockLoops_def)

lemma blockLoops_mySetTimeout_le:
  "blockLoops s \<le> k \<Longrightarrow> blockLoops (mySetTimeout s c t) \<le> Suc k"
  using blockLoops_mySetTimeout [of s c t] by simp

lemma blockLoops_getBlock_settled:
  "blockLoops (getBlock_settled e l s n r) \<le> Suc (blockLoops s)"
proof (cases r)
  case (Inl msg)
  then show ?thesis
    by (simp add: getBlock_settled_def blockLoops_mySetTimeout_le)
next
  case (Inr b)
  show ?thesis
  proof (cases b)
    case None
    with Inr show ?thesis
      by (simp add: getBlock_settled_def blockLoops_mySetTimeout_le)
  next
    case (Some block)
    let ?s1 = "adaptBlockPause e decrease s"
    let ?s2 = "trigger (Monitor_ProcessingBlock n (chainIdString ?s1) (getBlockPause ?s1)) ?s1"
    obtain r3 s3 where p: "processTransactions l ?s2 (prefetchedTransactions block) = (r3, s3)"
      by (cases "processTransactions l ?s2 (prefetchedTransactions block)") auto
    from blockLoops_processTransactions [OF p] have "blockLoops s3 = blockLoops s" by simp
    with Inr Some p show ?thesis
      by (cases r3) (simp_all add: getBlock_settled_def Let_def blockLoops_mySetTimeout_le)
  qed
qed

lemma blockLoops_getCode_settled:
  "blockLoops (getCode_settled l s h a k r) = blockLoops s"
  by (simp add: getCode_settled_def mySetTimeout_def blockLoops_def trigger_def
      split: sum.splits)

lemma blockLoops_settle:
  assumes "settle e l s i r = Inr s'"
  shows "blockLoops s' \<le> blockLoops s"
proof -
  from assms have i: "i < length (pending s)"
    by (simp add: settle_def split: if_splits)
  let ?s1 = "s\<lparr>pending := removeAt i (pending s)\<rparr>"
  have rm: "blockLoops s = blockLoops ?s1 + (if isBlockFlight (pending s ! i) then 1 else 0)"
    using filter_removeAt [OF i, of isBlockFlight] by (simp add: blockLoops_def)
  show ?thesis
  proof (cases "pending s ! i")
    case (AwaitGetBlockNumber url p rest raw found)
    with assms i obtain v where "s' = getBlockNumber_settled l ?s1 url p rest raw found v"
      by (auto simp add: settle_def Let_def split: settlement.splits)
    with rm AwaitGetBlockNumber blockLoops_getBlockNumber_settled [of l ?s1 url p rest raw found v]
    show ?thesis by simp
  next
    case (AwaitGetBlock n)
    with assms i obtain v where "s' = getBlock_settled e l ?s1 n v"
      by (auto simp add: settle_def Let_def split: settlement.splits)
    with rm AwaitGetBlock blockLoops_getBlock_settled [of e l ?s1 n v]
    show ?thesis by simp
  next
    case (AwaitGetCode h a k)
    with assms i obtain v where "s' = getCode_settled l ?s1 h a k v"
      by (auto simp add: settle_def Let_def split: settlement.splits)
    with rm AwaitGetCode blockLoops_getCode_settled [of l ?s1 h a k v]
    show ?thesis by simp
  qed
qed

lemma blockLoops_step:
  assumes "step e l ev s = Inr s'"
  shows "blockLoops s' \<le> blockLoops s + (if ev = CallStart then 1 else 0)"
proof (cases ev)
  case CallStart
  with assms blockLoops_start [of e s] show ?thesis by (simp add: step_def)
next
  case CallStop
  with assms blockLoops_stop [of s] show ?thesis by (auto simp add: step_def)
next
  case (TimerFires i)
  with assms blockLoops_fire [of s i s'] show ?thesis by (simp add: step_def)
next
  case (Settles i r)
  with assms blockLoops_settle [of e l s i r s'] show ?thesis by (simp add: step_def)
qed

lemma blockLoops_run:
  "run e l evs s = Inr s' \<Longrightarrow> blockLoops s' \<le> blockLoops s + count_list evs CallStart"
proof (induction evs arbitrary: s)
  case Nil
  then show ?case by simp
next
  case (Cons ev evs)
  then obtain s1 where st: "step e l ev s = Inr s1" and rn: "run e l evs s1 = Inr s'"
    by (auto split: sum.splits)
  from Cons.IH [OF rn] blockLoops_step [OF st] show ?case by auto
qed


section \<open>After stop\<close>
















section \<open>The budget of tries\<close>

lemma isWhole_iff: "isWhole k r \<longleftrightarrow> (\<exists>n\<le>k. r = Fin (of_int n))"
proof
  assume "isWhole k r"
  then obtain q where q: "r = Fin q" "\<exists>n. q = of_int n" "\<lfloor>q\<rfloor> \<le> k"
    by (cases r) (simp_all add: isWhole_def)
  then obtain n where "q = of_int n" by blast
  with q have "n \<le> k \<and> r = Fin (of_int n)" by simp
  then show "\<exists>n\<le>k. r = Fin (of_int n)" by blast
next
  assume "\<exists>n\<le>k. r = Fin (of_int n)"
  then show "isWhole k r" by (auto simp add: isWhole_def)
qed

lemma whole_decrement:
  assumes "isWhole k r" and "k \<le> 2 ^ 53" and "\<not> js_le r (Fin 0)"
  shows "isWhole k (decrement r)" and "triesOf r = Suc (triesOf (decrement r))"
proof -
  from assms(1) obtain n where n: "n \<le> k" "r = Fin (of_int n)"
    by (auto simp add: isWhole_iff)
  with assms(3) have pos: "0 < n" by (simp add: js_le_def)
  with n(1) assms(2) have "\<bar>n - 1\<bar> \<le> 2 ^ 53" by simp
  from decrement_of_int [OF this]
  have d: "decrement (Fin (of_int n)) = Fin (of_int (n - 1))" .
  from n(1) have "n - 1 \<le> k" by simp
  then show "isWhole k (decrement r)" unfolding n(2) d isWhole_iff by blast
  from pos show "triesOf r = Suc (triesOf (decrement r))"
    unfolding n(2) d by (simp add: triesOf_def)
qed

lemma whole_initial: "isWhole k (Fin (of_int k))" "triesOf (Fin (of_int k)) = nat k"
  by (auto simp add: isWhole_iff triesOf_def)

lemma list_all_removeAt:
  assumes "list_all P xs" and "i < length xs"
  shows "list_all P (removeAt i xs)" and "P (xs ! i)"
  using assms by (auto simp add: removeAt_def list_all_iff dest: in_set_takeD in_set_dropD)

lemma counts_trigger:
  "getCodeCalls a (trigger ev s) = getCodeCalls a s + (if isGetCodeOf a ev then 1 else 0)"
  "tasksStarted a (trigger ev s) = tasksStarted a s + (if isNewContractOf a ev then 1 else 0)"
  "triesLeft a (trigger ev s) = triesLeft a s"
  by (simp_all add: getCodeCalls_def tasksStarted_def triesLeft_def)

lemma budget_trigger:
  assumes "budget k a x s" and "\<not> isGetCodeOf a ev"
  shows "budget k a x (trigger ev s)"
proof -
  have "nat k * tasksStarted a s \<le> nat k * tasksStarted a (trigger ev s)"
    by (simp add: counts_trigger)
  with assms show ?thesis by (simp add: budget_def counts_trigger)
qed

lemma budget_less: "budget k a x s \<Longrightarrow> y \<le> x \<Longrightarrow> budget k a y s"
  by (simp add: budget_def)

lemma budget_pending_update:
  assumes "budget k a x s" and "wholeFlight k c" and "triesInFlight a c = 0"
  shows "budget k a x (s\<lparr>pending := pending s @ [c]\<rparr>)"
  using assms by (simp add: budget_def getCodeCalls_def tasksStarted_def triesLeft_def)

lemma budget_mySetTimeout_block:
  assumes "budget k a x s"
  shows "budget k a x (mySetTimeout s (CallProcessBlock n) t)"
  using assms
  by (simp add: budget_def mySetTimeout_def getCodeCalls_def tasksStarted_def triesLeft_def)

lemma budget_adaptBlockPause:
  assumes "budget k a x s"
  shows "budget k a x (adaptBlockPause e operation s)"
  using assms
  by (simp add: budget_def adaptBlockPause_def Let_def getCodeCalls_def tasksStarted_def
        triesLeft_def)

lemma budget_processBlock:
  assumes "budget k a x s" and "processBlock s n = Inr s'"
  shows "budget k a x s'"
  using assms
  by (auto simp add: budget_def processBlock_def getCodeCalls_def tasksStarted_def
        triesLeft_def split: option.splits)

lemma budget_startLoop:
  assumes "budget k a x s"
  shows "budget k a x (startLoop s urls raw found)"
proof (cases urls)
  case Nil
  with assms budget_trigger [OF assms, of "Monitor_Error_CantStart (chainIdString s)
      ''Couldn't find a working RPC node.''"]
  show ?thesis by (simp add: startLoop_def)
next
  case (Cons u rest)
  with assms show ?thesis
    by (simp add: startLoop_def Let_def budget_def getCodeCalls_def tasksStarted_def
          triesLeft_def)
qed

lemma budget_start:
  assumes "budget k a x s"
  shows "budget k a x (start e s)"
proof -
  from assms have "budget k a x (s\<lparr>running := True\<rparr>)"
    by (simp add: budget_def getCodeCalls_def tasksStarted_def triesLeft_def)
  then show ?thesis by (simp add: start_def Let_def budget_startLoop)
qed

lemma budget_stop:
  assumes "budget k a x s"
  shows "budget k a x (stop s)"
proof -
  from budget_trigger [OF assms, of "Monitor_Stopped (chainIdString s)"]
  have "budget k a x (trigger (Monitor_Stopped (chainIdString s)) s)" by simp
  then show ?thesis
    by (simp add: stop_def budget_def getCodeCalls_def tasksStarted_def triesLeft_def)
qed

lemma budget_getBlockNumber_settled:
  assumes "budget k a x s"
  shows "budget k a x (getBlockNumber_settled l s url p rest raw found r)"
proof (cases r)
  case (Inl msg)
  from budget_trigger [OF assms, of "logger_info url msg"] have
    "budget k a x (trigger (logger_info url msg) s)" by simp
  with Inl show ?thesis by (simp add: getBlockNumber_settled_def budget_startLoop)
next
  case (Inr n)
  define startBlock where "startBlock = (case raw of Some t \<Rightarrow> parseInt t | None \<Rightarrow> n)"
  define s1 where "s1 = s\<lparr>provider := Some p\<rparr>"
  define s2 where "s2 = trigger (Monitor_Started (chainIdString s1) url n startBlock) s1"
  from assms have "budget k a x s1"
    by (simp add: s1_def budget_def getCodeCalls_def tasksStarted_def triesLeft_def)
  then have s2: "budget k a x s2" unfolding s2_def by (rule budget_trigger) simp
  have "processBlock s2 startBlock =
          Inr (s2\<lparr>pending := pending s2 @ [AwaitGetBlock startBlock],
                  effects := effects s2 @ [rpc_getBlock p startBlock]\<rparr>)"
    by (simp add: processBlock_def s2_def s1_def)
  with budget_processBlock [OF s2, of startBlock] Inr show ?thesis
    by (simp add: getBlockNumber_settled_def Let_def s2_def s1_def startBlock_def)
qed

lemma budget_processBytecode:
  assumes "budget k a (x + (if b = a then triesOf r else 0)) s"
    and "isWhole k r" and "k \<le> 2 ^ 53"
    and "processBytecode s h b r = Inr s'"
  shows "budget k a x s'"
proof (cases "js_le r (Fin 0)")
  case True
  with assms(4) have "s' = s" by (simp add: processBytecode_def)
  with assms(1) show ?thesis by (simp add: budget_less)
next
  case False
  with assms(4) obtain p where p: "provider s = Some p"
    and s': "s' = s\<lparr>pending := pending s @ [AwaitGetCode h b (decrement r)],
                    effects := effects s @ [rpc_getCode p b]\<rparr>"
    by (auto simp add: processBytecode_def split: option.splits)
  note d = whole_decrement [OF assms(2,3) False]
  from assms(1) d show ?thesis
    by (auto simp add: s' budget_def getCodeCalls_def tasksStarted_def triesLeft_def)
qed

lemma budget_processTransactions:
  assumes "k \<le> 2 ^ 53"
  shows "budget k a x s \<Longrightarrow> processTransactions l s txs = (r, s') \<Longrightarrow> budget k a x s'"
proof (induction txs arbitrary: s)
  case Nil
  then show ?case by simp
next
  case (Cons tx txs)
  let ?b = "getCreateAddress l tx"
  let ?sv = "trigger (emit_contract_already_verified (chainId (sourcifyChain s)) ?b)
               (trigger (Monitor_AlreadyVerified ?b (chainIdString s)) s)"
  let ?s1 = "trigger (Monitor_NewContract ?b (chainIdString s)) s"
  consider (skip) "\<not> createsContract tx"
    | (verified) "createsContract tx" "isVerified s ?b"
    | (new) "createsContract tx" "\<not> isVerified s ?b"
    by blast
  then show ?case
  proof cases
    case skip
    with Cons.prems have "processTransactions l s txs = (r, s')" by simp
    from Cons.IH [OF Cons.prems(1) this] show ?thesis .
  next
    case verified
    with Cons.prems have p: "processTransactions l ?sv txs = (r, s')" by (simp add: Let_def)
    have "budget k a x ?sv"
      by (intro budget_trigger Cons.prems(1)) simp_all
    from Cons.IH [OF this p] show ?thesis .
  next
    case new
    from Cons.prems(1) have i: "initialGetBytecodeTries ?s1 = Fin (of_int k)"
      by (simp add: budget_def)
    have s1: "budget k a (x + (if ?b = a then triesOf (Fin (of_int k)) else 0)) ?s1"
      using Cons.prems(1)
      by (auto simp add: budget_def counts_trigger whole_initial)
    show ?thesis
    proof (cases "processBytecode ?s1 (tx_hash tx) ?b (initialGetBytecodeTries ?s1)")
      case (Inl err)
      with new Cons.prems have "s' = ?s1" by (simp_all add: Let_def)
      with s1 show ?thesis by (simp add: budget_less)
    next
      case (Inr s2)
      with new Cons.prems have p: "processTransactions l s2 txs = (r, s')"
        by (simp add: Let_def)
      from Inr have "processBytecode ?s1 (tx_hash tx) ?b (Fin (of_int k)) = Inr s2"
        by (simp only: i)
      from budget_processBytecode [OF s1 whole_initial(1) assms this]
      have "budget k a x s2" .
      from Cons.IH [OF this p] show ?thesis .
    qed
  qed
qed

lemma budget_getBlock_settled:
  assumes "k \<le> 2 ^ 53" and "budget k a x s"
  shows "budget k a x (getBlock_settled e l s n r)"
proof (cases r)
  case (Inl msg)
  have "budget k a x (trigger (Monitor_Error_ProcessingBlock msg (chainIdString s) n) s)"
    by (intro budget_trigger assms(2)) simp
  with Inl show ?thesis by (simp add: getBlock_settled_def budget_mySetTimeout_block)
next
  case (Inr b)
  show ?thesis
  proof (cases b)
    case None
    with Inr assms(2) show ?thesis
      by (simp add: getBlock_settled_def budget_mySetTimeout_block budget_adaptBlockPause)
  next
    case (Some block)
    let ?s1 = "adaptBlockPause e decrease s"
    let ?s2 = "trigger (Monitor_ProcessingBlock n (chainIdString ?s1) (getBlockPause ?s1)) ?s1"
    obtain r3 s3 where p: "processTransactions l ?s2 (prefetchedTransactions block) = (r3, s3)"
      by (cases "processTransactions l ?s2 (prefetchedTransactions block)") auto
    have "budget k a x ?s2"
      by (intro budget_trigger budget_adaptBlockPause assms(2)) simp
    from budget_processTransactions [OF assms(1) this p] have s3: "budget k a x s3" .
    show ?thesis
    proof (cases r3)
      case None
      with Inr Some p s3 show ?thesis
        by (simp add: getBlock_settled_def Let_def budget_mySetTimeout_block)
    next
      case (Some err)
      have "budget k a x
              (trigger (Monitor_Error_ProcessingBlock (message l err) (chainIdString s3) n) s3)"
        by (intro budget_trigger s3) simp
      with Inr \<open>b = Some block\<close> p Some show ?thesis
        by (simp add: getBlock_settled_def Let_def budget_mySetTimeout_block)
    qed
  qed
qed

lemma budget_bytecode_timer:
  assumes "budget k a (x + (if b = a then triesOf r else 0)) s" and "isWhole k r"
  shows "budget k a x (mySetTimeout s (CallProcessBytecode h b r) t)"
  using assms
  by (auto simp add: budget_def mySetTimeout_def getCodeCalls_def tasksStarted_def triesLeft_def)

lemma budget_getCode_settled:
  assumes "budget k a (x + (if b = a then triesOf r else 0)) s" and "isWhole k r"
  shows "budget k a x (getCode_settled l s h b r v)"
proof -
  have less: "budget k a x s" using assms(1) by (rule budget_less) simp
  have t: "budget k a x (trigger ev s)" if "\<not> isGetCodeOf a ev" for ev
    using less that by (rule budget_trigger)
  have u: "budget k a (x + (if b = a then triesOf r else 0)) (trigger ev s)"
    if "\<not> isGetCodeOf a ev" for ev
    using assms(1) that by (rule budget_trigger)
  show ?thesis
    by (auto simp add: getCode_settled_def budget_bytecode_timer assms t u split: sum.splits)
qed

lemma budget_timer_removed:
  assumes "budget k a 0 s" and "i < length (timers s)"
  shows "budget k a (triesOfCall a (fst (timers s ! i))) (s\<lparr>timers := removeAt i (timers s)\<rparr>)"
    and "wholeCall k (fst (timers s ! i))"
  using assms sum_list_removeAt [OF assms(2), of "\<lambda>t. triesOfCall a (fst t)"]
    list_all_removeAt [OF _ assms(2), of "\<lambda>t. wholeCall k (fst t)"]
  by (simp_all add: budget_def getCodeCalls_def tasksStarted_def triesLeft_def)

lemma budget_flight_removed:
  assumes "budget k a 0 s" and "i < length (pending s)"
  shows "budget k a (triesInFlight a (pending s ! i)) (s\<lparr>pending := removeAt i (pending s)\<rparr>)"
    and "wholeFlight k (pending s ! i)"
  using assms sum_list_removeAt [OF assms(2), of "triesInFlight a"]
    list_all_removeAt [OF _ assms(2), of "wholeFlight k"]
  by (simp_all add: budget_def getCodeCalls_def tasksStarted_def triesLeft_def)

lemma budget_fire:
  assumes "budget k a 0 s" and "k \<le> 2 ^ 53" and "fire s i = Inr s'"
  shows "budget k a 0 s'"
proof -
  from assms(3) have i: "i < length (timers s)"
    by (simp add: fire_def split: if_splits)
  let ?s1 = "s\<lparr>timers := removeAt i (timers s)\<rparr>"
  note rm = budget_timer_removed [OF assms(1) i]
  show ?thesis
  proof (cases "fst (timers s ! i)")
    case (CallProcessBlock n)
    with assms(3) i have p: "processBlock ?s1 n = Inr s'" by (simp add: fire_def Let_def)
    from rm(1) have "budget k a 0 ?s1" by (rule budget_less) simp
    from budget_processBlock [OF this p] show ?thesis .
  next
    case (CallProcessBytecode h b r)
    with assms(3) i have p: "processBytecode ?s1 h b r = Inr s'"
      by (simp add: fire_def Let_def)
    from rm CallProcessBytecode
    have "budget k a (0 + (if b = a then triesOf r else 0)) ?s1" "isWhole k r"
      by simp_all
    from budget_processBytecode [OF this assms(2) p] show ?thesis .
  qed
qed

lemma budget_settle:
  assumes "budget k a 0 s" and "k \<le> 2 ^ 53" and "settle e l s i r = Inr s'"
  shows "budget k a 0 s'"
proof -
  from assms(3) have i: "i < length (pending s)"
    by (simp add: settle_def split: if_splits)
  let ?s1 = "s\<lparr>pending := removeAt i (pending s)\<rparr>"
  note rm = budget_flight_removed [OF assms(1) i]
  from rm(1) have s1: "budget k a 0 ?s1" by (rule budget_less) simp
  show ?thesis
  proof (cases "pending s ! i")
    case (AwaitGetBlockNumber url p rest raw found)
    with assms(3) i obtain v where "s' = getBlockNumber_settled l ?s1 url p rest raw found v"
      by (auto simp add: settle_def Let_def split: settlement.splits)
    with budget_getBlockNumber_settled [OF s1] show ?thesis by simp
  next
    case (AwaitGetBlock n)
    with assms(3) i obtain v where "s' = getBlock_settled e l ?s1 n v"
      by (auto simp add: settle_def Let_def split: settlement.splits)
    with budget_getBlock_settled [OF assms(2) s1] show ?thesis by simp
  next
    case (AwaitGetCode h b c)
    with assms(3) i obtain v where s': "s' = getCode_settled l ?s1 h b c v"
      by (auto simp add: settle_def Let_def split: settlement.splits)
    from rm AwaitGetCode
    have "budget k a (0 + (if b = a then triesOf c else 0)) ?s1" "isWhole k c"
      by simp_all
    from budget_getCode_settled [OF this] s' show ?thesis by simp
  qed
qed

lemma budget_step:
  assumes "budget k a 0 s" and "k \<le> 2 ^ 53" and "step e l ev s = Inr s'"
  shows "budget k a 0 s'"
proof (cases ev)
  case CallStart
  with assms(3) budget_start [OF assms(1), of e] show ?thesis by (auto simp add: step_def)
next
  case CallStop
  with assms(3) budget_stop [OF assms(1)] show ?thesis by (auto simp add: step_def)
next
  case (TimerFires i)
  with assms(3) budget_fire [OF assms(1,2), of i s'] show ?thesis by (simp add: step_def)
next
  case (Settles i r)
  with assms(3) budget_settle [OF assms(1,2), of e l i r s'] show ?thesis
    by (simp add: step_def)
qed

lemma budget_run:
  assumes "k \<le> 2 ^ 53"
  shows "budget k a 0 s \<Longrightarrow> run e l evs s = Inr s' \<Longrightarrow> budget k a 0 s'"
proof (induction evs arbitrary: s)
  case Nil
  then show ?case by simp
next
  case (Cons ev evs)
  then obtain s1 where st: "step e l ev s = Inr s1" and rn: "run e l evs s1 = Inr s'"
    by (auto split: sum.splits)
  from budget_step [OF Cons.prems(1) assms st] have "budget k a 0 s1" .
  from Cons.IH [OF this rn] show ?case .
qed

lemma budget_newChainMonitor:
  assumes "initialGetBytecodeTries (newChainMonitor e chain repository) = Fin (of_int k)"
  shows "budget k a 0 (newChainMonitor e chain repository)"
  using assms by (simp add: budget_def getCodeCalls_def tasksStarted_def triesLeft_def)

lemma parseInt_manyTries:
  "parseInt (ascii ''18014398509481984'') = Fin 18014398509481984"
  using roundToDouble_exact [of 1 54 False] by (simp add: parse_defs pow2_def)

lemma fresh_manyTries:
  "newChainMonitor manyTries exampleChain emptyRepository =
     \<lparr>sourcifyChain = exampleChain, provider = None, repositoryService = emptyRepository,
      running = False, getBytecodeRetryPause = Fin 5000, getBlockPause = Fin 10000,
      initialGetBytecodeTries = Fin 18014398509481984, timers = [], pending = [],
      effects = []\<rparr>"
  by (simp add: newChainMonitor_def manyTries_def env_defs default_numbers parseInt_manyTries)

lemma manyTries_limits:
  "BLOCK_PAUSE_FACTOR manyTries = Fin (2476979795053773 / 2251799813685248)"
  "BLOCK_PAUSE_LOWER_LIMIT manyTries = Fin 500"
  "BLOCK_PAUSE_UPPER_LIMIT manyTries = Fin 30000"
  by (simp_all add: manyTries_def env_defs default_numbers double_11_10)

lemma manyTries_MONITOR_START_5 [simp]: "manyTries ''MONITOR_START_5'' = None"
  by (simp add: manyTries_def)

lemma run_to_retrying:
  "run manyTries exampleLib
     [CallStart, Settles 0 (BlockNumberIs (Inr (Fin 100))),
      Settles 0 (BlockIs (Inr (Some \<lparr>prefetchedTransactions = [creation ''0x01'']\<rparr>))),
      TimerFires 0, Settles 0 (CodeIs (Inr ''0x'')), TimerFires 0]
     (newChainMonitor manyTries exampleChain emptyRepository) = Inr (retrying 0)"
  by (simp add: fresh_manyTries retrying_def run_defs Let_def manyTries_limits exampleLib_def
        creation_def emptyRepository_def decrement_stalls)

lemma run_retryRound:
  "run manyTries exampleLib (retryRound @ evs) (retrying n) =
     run manyTries exampleLib evs (retrying (Suc n))"
  by (simp add: retryRound_def retrying_def run_defs Let_def decrement_stalls
        replicate_append_same)

lemma run_retryRounds:
  "run manyTries exampleLib (concat (replicate m retryRound) @ evs) (retrying n) =
     run manyTries exampleLib evs (retrying (n + m))"
proof (induction m arbitrary: n)
  case 0
  then show ?case by simp
next
  case (Suc m)
  have "run manyTries exampleLib (concat (replicate (Suc m) retryRound) @ evs) (retrying n) =
        run manyTries exampleLib (retryRound @ (concat (replicate m retryRound) @ evs)) (retrying n)"
    by simp
  also have "\<dots> = run manyTries exampleLib (concat (replicate m retryRound) @ evs) (retrying (Suc n))"
    by (rule run_retryRound)
  also have "\<dots> = run manyTries exampleLib evs (retrying (Suc n + m))"
    by (rule Suc.IH)
  finally show ?case by simp
qed

lemma counts_retrying:
  "getCodeCalls ''0xC0x01'' (retrying n) = Suc (Suc n)"
  "tasksStarted ''0xC0x01'' (retrying n) = 1"
  "initialGetBytecodeTries (retrying n) = Fin 18014398509481984"
  by (simp_all add: retrying_def getCodeCalls_def tasksStarted_def)

lemma run_append:
  "run e l (xs @ ys) s = (case run e l xs s of Inl err \<Rightarrow> Inl err | Inr s1 \<Rightarrow> run e l ys s1)"
  by (induction xs arbitrary: s) (simp_all split: sum.splits)

lemma run_to_retrying_rounds:
  "run manyTries exampleLib
     ([CallStart, Settles 0 (BlockNumberIs (Inr (Fin 100))),
       Settles 0 (BlockIs (Inr (Some \<lparr>prefetchedTransactions = [creation ''0x01'']\<rparr>))),
       TimerFires 0, Settles 0 (CodeIs (Inr ''0x'')), TimerFires 0]
      @ concat (replicate m retryRound))
     (newChainMonitor manyTries exampleChain emptyRepository) = Inr (retrying m)"
proof -
  have "run manyTries exampleLib (concat (replicate m retryRound) @ []) (retrying 0) =
        run manyTries exampleLib [] (retrying (0 + m))"
    by (rule run_retryRounds)
  then have "run manyTries exampleLib (concat (replicate m retryRound)) (retrying 0) =
             Inr (retrying m)"
    by simp
  then show ?thesis
    by (simp only: run_append run_to_retrying sum.case)
qed

text \<open>
  Claim C3, as stated: a task started with \<open>k \<ge> 1\<close> tries makes at most \<open>k\<close> \<open>getCode\<close>
  calls.  It fails for a \<open>k\<close> that \<^verbatim>\<open>retriesLeft--\<close> cannot decrement.  With
  \<open>INITIAL_GET_BYTECODE_TRIES=18014398509481984\<close>, which is \<open>2^54\<close>, the counter is a
  double whose predecessor is not a double, and \<open>2^54 - 1\<close> rounds back to \<open>2^54\<close>: every
  attempt keeps \<open>2^54\<close> tries.  A monitor is started, the block comes with one creation,
  the block timer fires and the \<open>getBlock\<close> call for the next block stays in flight, the
  first \<open>getCode\<close> call answers \<open>0x\<close> and its timer fires, and then the same round
  \<open>2^54\<close> times over: one task has made \<open>2^54 + 2\<close> calls, and its \<open>getCode\<close> call in
  flight still keeps \<open>2^54\<close> tries.
\<close>

theorem C3_tries_never_decrease:
  "initialGetBytecodeTries (newChainMonitor manyTries exampleChain emptyRepository) =
     Fin 18014398509481984 \<and>
   decrement (Fin 18014398509481984) = Fin 18014398509481984 \<and>
   run manyTries exampleLib
     ([CallStart, Settles 0 (BlockNumberIs (Inr (Fin 100))),
       Settles 0 (BlockIs (Inr (Some \<lparr>prefetchedTransactions = [creation ''0x01'']\<rparr>))),
       TimerFires 0, Settles 0 (CodeIs (Inr ''0x'')), TimerFires 0]
      @ concat (replicate 18014398509481984 retryRound))
     (newChainMonitor manyTries exampleChain emptyRepository) =
     Inr (retrying 18014398509481984) \<and>
   tasksStarted ''0xC0x01'' (retrying 18014398509481984) = 1 \<and>
   getCodeCalls ''0xC0x01'' (retrying 18014398509481984) = Suc (Suc 18014398509481984) \<and>
   pending (retrying 18014398509481984) =
     [AwaitGetBlock (Fin 101), AwaitGetCode ''0x01'' ''0xC0x01'' (Fin 18014398509481984)]"
proof -
  have "initialGetBytecodeTries (newChainMonitor manyTries exampleChain emptyRepository) =
          Fin 18014398509481984"
    by (simp add: fresh_manyTries)
  moreover have "pending (retrying 18014398509481984) =
                   [AwaitGetBlock (Fin 101),
                    AwaitGetCode ''0x01'' ''0xC0x01'' (Fin 18014398509481984)]"
    by (simp add: retrying_def)
  ultimately show ?thesis
    using decrement_stalls run_to_retrying_rounds [of 18014398509481984]
      counts_retrying(1,2) [of 18014398509481984]
    by (intro conjI)
qed

text \<open>
  Claim C3, amended: on a monitor that gives a task an integer number \<open>k \<le> 2^53\<close> of
  tries, after any run from its construction (calls of \<open>start\<close> and \<open>stop\<close>, timers firing,
  calls settling with any answer, the block loop going on), for every address the
  \<open>getCode\<close> calls made for it are at most \<open>k\<close> for each task started for it (each
  \<open>Monitor.NewContract\<close> event), none for \<open>k \<le> 0\<close>.  And \<open>processBytecode\<close> reached with
  \<open>retriesLeft <= 0\<close>, directly or from its timer, returns with the state as it was: no
  call, no event, no timer.
\<close>

theorem C3_getCode_calls_bounded:
  assumes "initialGetBytecodeTries (newChainMonitor e chain repository) = Fin (of_int k)"
    and "k \<le> 2 ^ 53"
    and "run e l evs (newChainMonitor e chain repository) = Inr s'"
  shows
    "getCodeCalls a s' \<le> nat k * tasksStarted a s' \<and>
     (js_le r (Fin 0) \<longrightarrow> processBytecode x h' a' r = Inr x) \<and>
     (i < length (timers x) \<and> fst (timers x ! i) = CallProcessBytecode h' a' r \<and>
      js_le r (Fin 0) \<longrightarrow>
        fire x i = Inr (x\<lparr>timers := removeAt i (timers x)\<rparr>))"
proof -
  from budget_run [OF assms(2) budget_newChainMonitor [OF assms(1)] assms(3)]
  have "budget k a 0 s'" .
  then have "getCodeCalls a s' \<le> nat k * tasksStarted a s'"
    by (simp add: budget_def)
  then show ?thesis
    by (simp add: processBytecode_def fire_def Let_def)
qed

theorem C3_getCode_calls_bounded_witness:
  "initialGetBytecodeTries (newChainMonitor noEnv exampleChain emptyRepository) = Fin 3 \<and>
   (3::int) \<le> 2 ^ 53 \<and>
   run noEnv exampleLib
     [CallStart, Settles 0 (BlockNumberIs (Inr (Fin 100))),
      Settles 0 (BlockIs (Inr (Some \<lparr>prefetchedTransactions = [creation ''0x01'']\<rparr>))),
      Settles 0 (CodeIs (Inr ''0x'')), TimerFires 1,
      Settles 0 (CodeIs (Inr ''0x'')), TimerFires 0, TimerFires 0,
      Settles 1 (CodeIs (Inl ''ETIMEDOUT'')), TimerFires 0]
     (newChainMonitor noEnv exampleChain emptyRepository) =
     Inr ((startedMonitor emptyRepository)
            \<lparr>getBlockPause := Fin (4997780126254545 / 549755813888),
             pending := [AwaitGetBlock (Fin 101)],
             effects :=
               [rpc_getBlockNumber (JsonRpcProvider ''http://a'' ''Goerli'' 5),
                Monitor_Started ''5'' ''http://a'' (Fin 100) (Fin 100),
                rpc_getBlock (JsonRpcProvider ''http://a'' ''Goerli'' 5) (Fin 100),
                Monitor_ProcessingBlock (Fin 100) ''5'' (Fin (4997780126254545 / 549755813888)),
                Monitor_NewContract ''0xC0x01'' ''5'',
                rpc_getCode (JsonRpcProvider ''http://a'' ''Goerli'' 5) ''0xC0x01'',
                rpc_getCode (JsonRpcProvider ''http://a'' ''Goerli'' 5) ''0xC0x01'',
                rpc_getBlock (JsonRpcProvider ''http://a'' ''Goerli'' 5) (Fin 101),
                rpc_getCode (JsonRpcProvider ''http://a'' ''Goerli'' 5) ''0xC0x01'',
                Monitor_Error_GettingBytecode ''ETIMEDOUT'' ''5'' ''0xC0x01'']\<rparr>) \<and>
   getCodeCalls ''0xC0x01'' ((startedMonitor emptyRepository)
            \<lparr>getBlockPause := Fin (4997780126254545 / 549755813888),
             pending := [AwaitGetBlock (Fin 101)],
             effects :=
               [rpc_getBlockNumber (JsonRpcProvider ''http://a'' ''Goerli'' 5),
                Monitor_Started ''5'' ''http://a'' (Fin 100) (Fin 100),
                rpc_getBlock (JsonRpcProvider ''http://a'' ''Goerli'' 5) (Fin 100),
                Monitor_ProcessingBlock (Fin 100) ''5'' (Fin (4997780126254545 / 549755813888)),
                Monitor_NewContract ''0xC0x01'' ''5'',
                rpc_getCode (JsonRpcProvider ''http://a'' ''Goerli'' 5) ''0xC0x01'',
                rpc_getCode (JsonRpcProvider ''http://a'' ''Goerli'' 5) ''0xC0x01'',
                rpc_getBlock (JsonRpcProvider ''http://a'' ''Goerli'' 5) (Fin 101),
                rpc_getCode (JsonRpcProvider ''http://a'' ''Goerli'' 5) ''0xC0x01'',
                Monitor_Error_GettingBytecode ''ETIMEDOUT'' ''5'' ''0xC0x01'']\<rparr>)
     \<le> nat 3 * tasksStarted ''0xC0x01'' ((startedMonitor emptyRepository)
            \<lparr>getBlockPause := Fin (4997780126254545 / 549755813888),
             pending := [AwaitGetBlock (Fin 101)],
             effects :=
               [rpc_getBlockNumber (JsonRpcProvider ''http://a'' ''Goerli'' 5),
                Monitor_Started ''5'' ''http://a'' (Fin 100) (Fin 100),
                rpc_getBlock (JsonRpcProvider ''http://a'' ''Goerli'' 5) (Fin 100),
                Monitor_ProcessingBlock (Fin 100) ''5'' (Fin (4997780126254545 / 549755813888)),
                Monitor_NewContract ''0xC0x01'' ''5'',
                rpc_getCode (JsonRpcProvider ''http://a'' ''Goerli'' 5) ''0xC0x01'',
                rpc_getCode (JsonRpcProvider ''http://a'' ''Goerli'' 5) ''0xC0x01'',
                rpc_getBlock (JsonRpcProvider ''http://a'' ''Goerli'' 5) (Fin 101),
                rpc_getCode (JsonRpcProvider ''http://a'' ''Goerli'' 5) ''0xC0x01'',
                Monitor_Error_GettingBytecode ''ETIMEDOUT'' ''5'' ''0xC0x01'']\<rparr>) \<and>
   processBytecode (startedMonitor emptyRepository) ''0x01'' ''0xC0x01'' (Fin 0) =
     Inr (startedMonitor emptyRepository)"
proof -
  let ?p = "JsonRpcProvider ''http://a'' ''Goerli'' 5"
  let ?s0 = "newChainMonitor noEnv exampleChain emptyRepository"
  let ?evs = "[CallStart, Settles 0 (BlockNumberIs (Inr (Fin 100))),
      Settles 0 (BlockIs (Inr (Some \<lparr>prefetchedTransactions = [creation ''0x01'']\<rparr>))),
      Settles 0 (CodeIs (Inr ''0x'')), TimerFires 1,
      Settles 0 (CodeIs (Inr ''0x'')), TimerFires 0, TimerFires 0,
      Settles 1 (CodeIs (Inl ''ETIMEDOUT'')), TimerFires 0]"
  let ?s' = "(startedMonitor emptyRepository)
            \<lparr>getBlockPause := Fin (4997780126254545 / 549755813888),
             pending := [AwaitGetBlock (Fin 101)],
             effects :=
               [rpc_getBlockNumber ?p,
                Monitor_Started ''5'' ''http://a'' (Fin 100) (Fin 100),
                rpc_getBlock ?p (Fin 100),
                Monitor_ProcessingBlock (Fin 100) ''5'' (Fin (4997780126254545 / 549755813888)),
                Monitor_NewContract ''0xC0x01'' ''5'',
                rpc_getCode ?p ''0xC0x01'', rpc_getCode ?p ''0xC0x01'',
                rpc_getBlock ?p (Fin 101), rpc_getCode ?p ''0xC0x01'',
                Monitor_Error_GettingBytecode ''ETIMEDOUT'' ''5'' ''0xC0x01'']\<rparr>"
  have a: "initialGetBytecodeTries ?s0 = Fin (of_int 3)" by (simp add: fresh_noEnv)
  have b: "(3::int) \<le> 2 ^ 53" by simp
  have c: "run noEnv exampleLib ?evs ?s0 = Inr ?s'"
    by (simp add: startedMonitor_eq fresh_noEnv run_defs Let_def noEnv_limits exampleLib_def
          creation_def emptyRepository_def)
  have z: "js_le (Fin 0) (Fin 0)" by (simp add: js_le_def)
  from C3_getCode_calls_bounded [OF a b c, of "''0xC0x01''" "Fin 0"
         "startedMonitor emptyRepository" "''0x01''" "''0xC0x01''" 0] a b c z
  show ?thesis by (simp del: run.simps)
qed

section \<open>The block cursor\<close>

lemma settle_AwaitGetBlock:
  assumes "i < length (pending s)" and "pending s ! i = AwaitGetBlock N"
  shows "settle e l s i (BlockIs r) =
     Inr (getBlock_settled e l (s\<lparr>pending := removeAt i (pending s)\<rparr>) N r)"
  using assms by (simp add: settle_def Let_def)

lemma timers_getBlock_settled_retry:
  assumes "r = Inr None \<or> r = Inl msg"
  shows "timers (getBlock_settled e l s N r) =
     timers s @ (if running s
                 then [(CallProcessBlock N, getBlockPause (getBlock_settled e l s N r))]
                 else [])"
  using assms
  by (auto simp add: getBlock_settled_def mySetTimeout_def adaptBlockPause_def Let_def)

lemma timers_getBlock_settled_advance:
  assumes "provider s \<noteq> None"
  shows "timers (getBlock_settled e l s N (Inr (Some block))) =
     timers s @ (if running s
                 then [(CallProcessBlock (increment N),
                        getBlockPause (getBlock_settled e l s N (Inr (Some block))))]
                 else [])"
proof -
  let ?s1 = "adaptBlockPause e decrease s"
  let ?s2 = "trigger (Monitor_ProcessingBlock N (chainIdString ?s1) (getBlockPause ?s1)) ?s1"
  obtain r3 s3 where p: "processTransactions l ?s2 (prefetchedTransactions block) = (r3, s3)"
    by (cases "processTransactions l ?s2 (prefetchedTransactions block)") auto
  from processTransactions_preserves [OF p] assms
  have "r3 = None" "timers s3 = timers s" "running s3 = running s"
    by (simp_all add: adaptBlockPause_def Let_def)
  with p show ?thesis
    by (simp add: getBlock_settled_def Let_def mySetTimeout_def)
qed

lemma only_block_loop:
  assumes "blockLoops s \<le> 1" and "i < length (pending s)" and "pending s ! i = AwaitGetBlock N"
  shows "filter isBlockFlight (pending s) = [AwaitGetBlock N] \<and>
         filter (\<lambda>t. isBlockCall (fst t)) (timers s) = []"
proof -
  define ts where "ts = filter (\<lambda>t. isBlockCall (fst t)) (timers s)"
  define fs where "fs = filter isBlockFlight (pending s)"
  from assms(2,3) have m: "AwaitGetBlock N \<in> set fs"
    by (simp add: fs_def nth_mem [OF assms(2), unfolded assms(3)])
  from assms(1) have le: "length ts + length fs \<le> 1"
    by (simp add: blockLoops_def ts_def fs_def)
  from m obtain c cs where fs: "fs = c # cs" by (cases fs) auto
  with le have "cs = []" "ts = []" by simp_all
  with fs m have "fs = [AwaitGetBlock N]" "ts = []" by simp_all
  then show ?thesis by (simp add: ts_def fs_def)
qed

lemma run_to_awaitingBlock:
  "run noEnv exampleLib [CallStart, Settles 0 (BlockNumberIs (Inr (Fin 500)))]
     (newChainMonitor noEnv exampleChain emptyRepository) = Inr awaitingBlock"
  by (simp add: awaitingBlock_def startedMonitor_eq fresh_noEnv run_defs Let_def)

lemma parseInt_limit: "parseInt (ascii ''9007199254740992'') = Fin 9007199254740992"
  using roundToDouble_of_int [of 9007199254740992 False] by (simp add: parse_defs)

lemma fresh_startAtLimit:
  "newChainMonitor startAtLimit exampleChain emptyRepository =
     \<lparr>sourcifyChain = exampleChain, provider = None, repositoryService = emptyRepository,
      running = False, getBytecodeRetryPause = Fin 5000, getBlockPause = Fin 10000,
      initialGetBytecodeTries = Fin 3, timers = [], pending = [], effects = []\<rparr>"
  by (simp add: newChainMonitor_def startAtLimit_def env_defs default_numbers)

lemma startAtLimit_limits:
  "BLOCK_PAUSE_FACTOR startAtLimit = Fin (2476979795053773 / 2251799813685248)"
  "BLOCK_PAUSE_LOWER_LIMIT startAtLimit = Fin 500"
  "BLOCK_PAUSE_UPPER_LIMIT startAtLimit = Fin 30000"
  by (simp_all add: startAtLimit_def env_defs default_numbers double_11_10)

lemma startAtLimit_MONITOR_START_5 [simp]:
  "startAtLimit ''MONITOR_START_5'' = Some (ascii ''9007199254740992'')"
  by (simp add: startAtLimit_def)

text \<open>
  Claim C1, as stated: after a block is returned the next invocation is for block
  \<open>N + 1\<close>, and block \<open>N + 1\<close> is never requested before the request for block \<open>N\<close> has
  resolved.  Both fail.  \<open>start\<close> called twice starts two block loops: both probes answer
  500, the \<open>getBlock\<close> call of the first loop returns a block and its timer fires, and
  block 501 is requested while the \<open>getBlock\<close> call of the second loop for block 500 is
  still in flight.  And \<^verbatim>\<open>blockNumber++\<close> on \<open>2^53\<close> gives \<open>2^53\<close>: started at block
  \<open>9007199254740992\<close> by the override, a monitor that is returned that block sets its
  timer for the same block again.
\<close>

theorem C1_two_loops_and_stalled_cursor:
  "run noEnv exampleLib
     [CallStart, Settles 0 (BlockNumberIs (Inr (Fin 500))),
      CallStart, Settles 1 (BlockNumberIs (Inr (Fin 500))),
      Settles 0 (BlockIs (Inr (Some emptyBlock))), TimerFires 0]
     (newChainMonitor noEnv exampleChain emptyRepository) =
   Inr ((startedMonitor emptyRepository)
          \<lparr>getBlockPause := Fin (4997780126254545 / 549755813888),
           pending := [AwaitGetBlock (Fin 500), AwaitGetBlock (Fin 501)],
           effects :=
             [rpc_getBlockNumber (JsonRpcProvider ''http://a'' ''Goerli'' 5),
              Monitor_Started ''5'' ''http://a'' (Fin 500) (Fin 500),
              rpc_getBlock (JsonRpcProvider ''http://a'' ''Goerli'' 5) (Fin 500),
              rpc_getBlockNumber (JsonRpcProvider ''http://a'' ''Goerli'' 5),
              Monitor_Started ''5'' ''http://a'' (Fin 500) (Fin 500),
              rpc_getBlock (JsonRpcProvider ''http://a'' ''Goerli'' 5) (Fin 500),
              Monitor_ProcessingBlock (Fin 500) ''5'' (Fin (4997780126254545 / 549755813888)),
              rpc_getBlock (JsonRpcProvider ''http://a'' ''Goerli'' 5) (Fin 501)]\<rparr>) \<and>
   increment (Fin 9007199254740992) = Fin 9007199254740992 \<and>
   run startAtLimit exampleLib
     [CallStart, Settles 0 (BlockNumberIs (Inr (Fin 500))),
      Settles 0 (BlockIs (Inr (Some emptyBlock)))]
     (newChainMonitor startAtLimit exampleChain emptyRepository) =
   Inr ((startedMonitor emptyRepository)
          \<lparr>getBlockPause := Fin (4997780126254545 / 549755813888),
           timers := [(CallProcessBlock (Fin 9007199254740992),
                       Fin (4997780126254545 / 549755813888))],
           effects :=
             [rpc_getBlockNumber (JsonRpcProvider ''http://a'' ''Goerli'' 5),
              Monitor_Started ''5'' ''http://a'' (Fin 500) (Fin 9007199254740992),
              rpc_getBlock (JsonRpcProvider ''http://a'' ''Goerli'' 5) (Fin 9007199254740992),
              Monitor_ProcessingBlock (Fin 9007199254740992) ''5''
                (Fin (4997780126254545 / 549755813888))]\<rparr>)"
proof -
  have "run noEnv exampleLib
     [CallStart, Settles 0 (BlockNumberIs (Inr (Fin 500))),
      CallStart, Settles 1 (BlockNumberIs (Inr (Fin 500))),
      Settles 0 (BlockIs (Inr (Some emptyBlock))), TimerFires 0]
     (newChainMonitor noEnv exampleChain emptyRepository) =
   Inr ((startedMonitor emptyRepository)
          \<lparr>getBlockPause := Fin (4997780126254545 / 549755813888),
           pending := [AwaitGetBlock (Fin 500), AwaitGetBlock (Fin 501)],
           effects :=
             [rpc_getBlockNumber (JsonRpcProvider ''http://a'' ''Goerli'' 5),
              Monitor_Started ''5'' ''http://a'' (Fin 500) (Fin 500),
              rpc_getBlock (JsonRpcProvider ''http://a'' ''Goerli'' 5) (Fin 500),
              rpc_getBlockNumber (JsonRpcProvider ''http://a'' ''Goerli'' 5),
              Monitor_Started ''5'' ''http://a'' (Fin 500) (Fin 500),
              rpc_getBlock (JsonRpcProvider ''http://a'' ''Goerli'' 5) (Fin 500),
              Monitor_ProcessingBlock (Fin 500) ''5'' (Fin (4997780126254545 / 549755813888)),
              rpc_getBlock (JsonRpcProvider ''http://a'' ''Goerli'' 5) (Fin 501)]\<rparr>)"
    by (simp add: startedMonitor_eq fresh_noEnv run_defs Let_def noEnv_limits emptyBlock_def)
  moreover have "run startAtLimit exampleLib
     [CallStart, Settles 0 (BlockNumberIs (Inr (Fin 500))),
      Settles 0 (BlockIs (Inr (Some emptyBlock)))]
     (newChainMonitor startAtLimit exampleChain emptyRepository) =
   Inr ((startedMonitor emptyRepository)
          \<lparr>getBlockPause := Fin (4997780126254545 / 549755813888),
           timers := [(CallProcessBlock (Fin 9007199254740992),
                       Fin (4997780126254545 / 549755813888))],
           effects :=
             [rpc_getBlockNumber (JsonRpcProvider ''http://a'' ''Goerli'' 5),
              Monitor_Started ''5'' ''http://a'' (Fin 500) (Fin 9007199254740992),
              rpc_getBlock (JsonRpcProvider ''http://a'' ''Goerli'' 5) (Fin 9007199254740992),
              Monitor_ProcessingBlock (Fin 9007199254740992) ''5''
                (Fin (4997780126254545 / 549755813888))]\<rparr>)"
    by (simp add: startedMonitor_eq fresh_startAtLimit run_defs Let_def startAtLimit_limits
          emptyBlock_def parseInt_limit increment_stalls)
  ultimately show ?thesis using increment_stalls by (intro conjI)
qed

text \<open>
  Claim C1, amended: the \<open>getBlock\<close> call of \<open>processBlock\<close> for block \<open>N\<close>, in flight on a
  monitor with a provider.  When it returns \<open>null\<close> or rejects, the settlement sets, if the
  monitor is running, exactly one timer, for \<open>processBlock\<close> on \<open>N\<close> again, after the
  pause then current; when it returns a block, the timer is for the value of
  \<^verbatim>\<open>blockNumber++\<close>, which is \<open>N + 1\<close> when \<open>N\<close> is an integer with \<open>|N + 1| \<le> 2^53\<close>; a
  stopped monitor sets none.  And on a monitor that was idle and has been started at most
  once, that call is the whole block loop while it is in flight: no other \<open>getBlock\<close> call
  or probe is in flight and no \<open>processBlock\<close> timer is set, so no block is requested
  until it settles.
\<close>

theorem C1_block_cursor:
  assumes "i < length (pending s)" and "pending s ! i = AwaitGetBlock N"
    and "provider s = Some p"
  shows
    "(\<exists>s'. settle e l s i (BlockIs (Inr None)) = Inr s' \<and>
           timers s' = timers s @
             (if running s then [(CallProcessBlock N, getBlockPause s')] else [])) \<and>
     (\<exists>s'. settle e l s i (BlockIs (Inl msg)) = Inr s' \<and>
           timers s' = timers s @
             (if running s then [(CallProcessBlock N, getBlockPause s')] else [])) \<and>
     (\<exists>s'. settle e l s i (BlockIs (Inr (Some block))) = Inr s' \<and>
           timers s' = timers s @
             (if running s then [(CallProcessBlock (increment N), getBlockPause s')] else [])) \<and>
     (N = Fin (of_int n) \<and> \<bar>n + 1\<bar> \<le> 2 ^ 53 \<longrightarrow> increment N = Fin (of_int (n + 1))) \<and>
     (blockLoops s0 = 0 \<and> count_list evs CallStart \<le> 1 \<and> run e l evs s0 = Inr s \<longrightarrow>
        filter isBlockFlight (pending s) = [AwaitGetBlock N] \<and>
        filter (\<lambda>t. isBlockCall (fst t)) (timers s) = [])"
proof -
  let ?s1 = "s\<lparr>pending := removeAt i (pending s)\<rparr>"
  have s1: "timers ?s1 = timers s" "running ?s1 = running s" "provider ?s1 \<noteq> None"
    using assms(3) by simp_all
  have a: "\<exists>s'. settle e l s i (BlockIs (Inr None)) = Inr s' \<and>
           timers s' = timers s @
             (if running s then [(CallProcessBlock N, getBlockPause s')] else [])"
    using timers_getBlock_settled_retry [of "Inr None" msg e l ?s1 N] s1
    by (simp only: settle_AwaitGetBlock [OF assms(1,2)]) simp
  have b: "\<exists>s'. settle e l s i (BlockIs (Inl msg)) = Inr s' \<and>
           timers s' = timers s @
             (if running s then [(CallProcessBlock N, getBlockPause s')] else [])"
    using timers_getBlock_settled_retry [of "Inl msg" msg e l ?s1 N] s1
    by (simp only: settle_AwaitGetBlock [OF assms(1,2)]) simp
  have c: "\<exists>s'. settle e l s i (BlockIs (Inr (Some block))) = Inr s' \<and>
           timers s' = timers s @
             (if running s then [(CallProcessBlock (increment N), getBlockPause s')] else [])"
    using timers_getBlock_settled_advance [OF s1(3), of e l N block] s1
    by (simp only: settle_AwaitGetBlock [OF assms(1,2)]) simp
  have d: "filter isBlockFlight (pending s) = [AwaitGetBlock N] \<and>
           filter (\<lambda>t. isBlockCall (fst t)) (timers s) = []"
    if "blockLoops s0 = 0" "count_list evs CallStart \<le> 1" "run e l evs s0 = Inr s"
  proof -
    from blockLoops_run [OF that(3)] that(1,2) have "blockLoops s \<le> 1" by simp
    from only_block_loop [OF this assms(1,2)] show ?thesis .
  qed
  have f: "increment N = Fin (of_int (n + 1))" if "N = Fin (of_int n)" "\<bar>n + 1\<bar> \<le> 2 ^ 53"
    using increment_of_int [OF that(2)] that(1) by simp
  from a b c d f show ?thesis by blast
qed

theorem C1_block_cursor_witness:
  "0 < length (pending awaitingBlock) \<and>
   pending awaitingBlock ! 0 = AwaitGetBlock (Fin 500) \<and>
   provider awaitingBlock = Some (JsonRpcProvider ''http://a'' ''Goerli'' 5) \<and>
   blockLoops (newChainMonitor noEnv exampleChain emptyRepository) = 0 \<and>
   count_list [CallStart, Settles 0 (BlockNumberIs (Inr (Fin 500)))] CallStart \<le> 1 \<and>
   run noEnv exampleLib [CallStart, Settles 0 (BlockNumberIs (Inr (Fin 500)))]
     (newChainMonitor noEnv exampleChain emptyRepository) = Inr awaitingBlock \<and>
   settle noEnv exampleLib awaitingBlock 0 (BlockIs (Inr None)) =
     Inr (awaitingBlock\<lparr>getBlockPause := Fin 11000,
                        timers := [(CallProcessBlock (Fin 500), Fin 11000)], pending := []\<rparr>) \<and>
   settle noEnv exampleLib awaitingBlock 0 (BlockIs (Inl ''ETIMEDOUT'')) =
     Inr (awaitingBlock\<lparr>timers := [(CallProcessBlock (Fin 500), Fin 10000)], pending := [],
                        effects := effects awaitingBlock
                          @ [Monitor_Error_ProcessingBlock ''ETIMEDOUT'' ''5'' (Fin 500)]\<rparr>) \<and>
   settle noEnv exampleLib awaitingBlock 0 (BlockIs (Inr (Some emptyBlock))) =
     Inr (awaitingBlock\<lparr>getBlockPause := Fin (4997780126254545 / 549755813888),
                        timers := [(CallProcessBlock (Fin 501),
                                    Fin (4997780126254545 / 549755813888))],
                        pending := [],
                        effects := effects awaitingBlock
                          @ [Monitor_ProcessingBlock (Fin 500) ''5''
                               (Fin (4997780126254545 / 549755813888))]\<rparr>) \<and>
   increment (Fin 500) = Fin 501 \<and>
   filter isBlockFlight (pending awaitingBlock) = [AwaitGetBlock (Fin 500)] \<and>
   filter (\<lambda>t. isBlockCall (fst t)) (timers awaitingBlock) = []"
proof -
  let ?p = "JsonRpcProvider ''http://a'' ''Goerli'' 5"
  let ?s0 = "newChainMonitor noEnv exampleChain emptyRepository"
  let ?evs = "[CallStart, Settles 0 (BlockNumberIs (Inr (Fin 500)))]"
  have a: "0 < length (pending awaitingBlock)"
    and b: "pending awaitingBlock ! 0 = AwaitGetBlock (Fin 500)"
    and c: "provider awaitingBlock = Some ?p"
    by (simp_all add: awaitingBlock_def startedMonitor_eq)
  have d: "blockLoops ?s0 = 0" by (simp add: blockLoops_def)
  have f: "count_list ?evs CallStart \<le> 1" by simp
  note g = run_to_awaitingBlock
  have n: "settle noEnv exampleLib awaitingBlock 0 (BlockIs (Inr None)) =
     Inr (awaitingBlock\<lparr>getBlockPause := Fin 11000,
                        timers := [(CallProcessBlock (Fin 500), Fin 11000)], pending := []\<rparr>)"
    by (simp add: awaitingBlock_def startedMonitor_eq run_defs Let_def noEnv_limits)
  have r: "settle noEnv exampleLib awaitingBlock 0 (BlockIs (Inl ''ETIMEDOUT'')) =
     Inr (awaitingBlock\<lparr>timers := [(CallProcessBlock (Fin 500), Fin 10000)], pending := [],
                        effects := effects awaitingBlock
                          @ [Monitor_Error_ProcessingBlock ''ETIMEDOUT'' ''5'' (Fin 500)]\<rparr>)"
    by (simp add: awaitingBlock_def startedMonitor_eq run_defs Let_def noEnv_limits)
  have k: "settle noEnv exampleLib awaitingBlock 0 (BlockIs (Inr (Some emptyBlock))) =
     Inr (awaitingBlock\<lparr>getBlockPause := Fin (4997780126254545 / 549755813888),
                        timers := [(CallProcessBlock (Fin 501),
                                    Fin (4997780126254545 / 549755813888))],
                        pending := [],
                        effects := effects awaitingBlock
                          @ [Monitor_ProcessingBlock (Fin 500) ''5''
                               (Fin (4997780126254545 / 549755813888))]\<rparr>)"
    by (simp add: awaitingBlock_def startedMonitor_eq run_defs Let_def noEnv_limits
          emptyBlock_def)
  have m: "\<bar>(500::int) + 1\<bar> \<le> 2 ^ 53" by simp
  from C1_block_cursor [OF a b c, of noEnv exampleLib "''ETIMEDOUT''" emptyBlock 500 ?s0 ?evs]
       d f g m
  have "increment (Fin 500) = Fin 501 \<and>
        filter isBlockFlight (pending awaitingBlock) = [AwaitGetBlock (Fin 500)] \<and>
        filter (\<lambda>t. isBlockCall (fst t)) (timers awaitingBlock) = []"
    by simp
  with a b c d f g n r k show ?thesis by (simp del: run.simps)
qed

end
